theory Spec2Isabelle
  imports Complex_Main
begin

section \<open>Errors\<close>

text \<open>
  Every exception the modelled code can raise is a value.  \<open>CouldNotConnect\<close> is the
  \<^verbatim>\<open>Exception("Could not connect to ... after 10 attempts")\<close> of \<^verbatim>\<open>get_db_connection\<close>;
  the others are the errors PostgreSQL reports through psycopg2 for the statements of
  \<^verbatim>\<open>prepared_layers/layers/crm.py\<close>.  \<open>OperationalError\<close> stands for a failure the
  environment causes (lost connection, lock timeout), whatever the data.
\<close>

datatype error =
    CouldNotConnect
  | OperationalError
  | UndefinedTable
  | NotNullViolation
  | CardinalityViolation
  | NumericValueOutOfRange

section \<open>Pricing constants and cost formulas\<close>

text \<open>\<^verbatim>\<open>DATA_COST_PER_GB = 49\<close> and \<^verbatim>\<open>VOICE_COST_PER_MIN = 1\<close> (crm.py, lines 13-14).\<close>

definition DATA_COST_PER_GB :: int where
  "DATA_COST_PER_GB = 49"

definition VOICE_COST_PER_MIN :: int where
  "VOICE_COST_PER_MIN = 1"

text \<open>
  The two \<^verbatim>\<open>SET\<close> expressions of the first \<^verbatim>\<open>UPDATE\<close> in
  \<^verbatim>\<open>update_crm_balances_from_cdr\<close>:
  \<^verbatim>\<open>COALESCE(total_bytes, 0) * 49 / 1073741824.0\<close> and
  \<^verbatim>\<open>COALESCE(total_seconds, 0) * 1 / 60.0\<close>.  The product is an integer, the division
  by the decimal literal is a \<^verbatim>\<open>numeric\<close> division; its quotient is kept exact here
  (a rational), where PostgreSQL carries it to sixteen or more significant digits.
\<close>

definition data_cost_zar_expr :: "int \<Rightarrow> rat" where
  "data_cost_zar_expr total_bytes = of_int (total_bytes * DATA_COST_PER_GB) / 1073741824"

definition voice_cost_zar_expr :: "int \<Rightarrow> rat" where
  "voice_cost_zar_expr total_seconds = of_int (total_seconds * VOICE_COST_PER_MIN) / 60"

text \<open>
  A \<^verbatim>\<open>DECIMAL(10,2)\<close> column holds a fixed-point number: \<open>Decimal2 n\<close> is the value
  \<open>n / 100\<close>.  Assigning a \<^verbatim>\<open>numeric\<close> to such a column rounds it to two decimals,
  ties away from zero, and raises "numeric field overflow" when the rounded value needs
  more than eight digits before the point.
\<close>

datatype decimal2 = Decimal2 int

fun dec_val :: "decimal2 \<Rightarrow> rat" where
  "dec_val (Decimal2 n) = of_int n / 100"

fun unscaled :: "decimal2 \<Rightarrow> int" where
  "unscaled (Decimal2 n) = n"

definition round_half_away :: "rat \<Rightarrow> int" where
  "round_half_away x = (if 0 \<le> x then \<lfloor>x + 1 / 2\<rfloor> else - \<lfloor>- x + 1 / 2\<rfloor>)"

definition fits_10_2 :: "int \<Rightarrow> bool" where
  "fits_10_2 n = (\<bar>n\<bar> < 10000000000)"

definition to_decimal_10_2 :: "rat \<Rightarrow> error + decimal2" where
  "to_decimal_10_2 x =
     (let n = round_half_away (x * 100)
      in if fits_10_2 n then Inr (Decimal2 n) else Inl NumericValueOutOfRange)"

text \<open>Sum and negation of two \<^verbatim>\<open>DECIMAL(10,2)\<close> values, as \<^verbatim>\<open>numeric\<close> computes them (exactly).\<close>

fun dec_add :: "decimal2 \<Rightarrow> decimal2 \<Rightarrow> decimal2" where
  "dec_add (Decimal2 a) (Decimal2 b) = Decimal2 (a + b)"

fun dec_neg :: "decimal2 \<Rightarrow> decimal2" where
  "dec_neg (Decimal2 a) = Decimal2 (- a)"

definition store_10_2 :: "decimal2 \<Rightarrow> error + decimal2" where
  "store_10_2 d = (if fits_10_2 (unscaled d) then Inr d else Inl NumericValueOutOfRange)"

text \<open>
  Python's \<^verbatim>\<open>round\<close> (used by \<^verbatim>\<open>tests/test_hvs.py\<close> as \<^verbatim>\<open>int(round(...))\<close>):
  to the nearest integer, a tie to the even neighbour.
\<close>

definition py_round :: "rat \<Rightarrow> int" where
  "py_round x =
     (let f = \<lfloor>x\<rfloor>; d = x - of_int f
      in if d < 1 / 2 then f
         else if 1 / 2 < d then f + 1
         else if even f then f else f + 1)"

text \<open>
  \<^verbatim>\<open>tests/test_hvs.py\<close>, lines 21-24: the test of the streaming helper for data,
  \<^verbatim>\<open>data_cost_wak(1000000000) == int(round(49.0 * WAK_PER_ZAR))\<close>.  The helper and the
  rate \<^verbatim>\<open>WAK_PER_ZAR\<close> belong to \<^verbatim>\<open>hvs/consumer.py\<close>, which is not among the sources;
  they are the parameters of the test.  The product is kept exact (a rational).
\<close>

definition test_data_cost_wak :: "(int \<Rightarrow> int) \<Rightarrow> rat \<Rightarrow> bool" where
  "test_data_cost_wak helper WAK_PER_ZAR = (helper 1000000000 = py_round (49 * WAK_PER_ZAR))"




section \<open>Connecting to the database\<close>

text \<open>
  \<^verbatim>\<open>get_db_connection\<close> (database.py, lines 10-25).  The environment is the function
  \<open>connect\<close>: \<open>connect i\<close> is what the call of \<^verbatim>\<open>psycopg2.connect\<close> in attempt \<open>i\<close>
  (counted from 0) gives, \<open>None\<close> when it raises.  The loop carries the seconds spent
  in \<^verbatim>\<open>time.sleep(5)\<close>; the result is the connection or the final exception, with the
  number of connection calls made and the seconds slept.
\<close>

function connect_loop :: "(nat \<Rightarrow> 'c option) \<Rightarrow> nat \<Rightarrow> nat \<Rightarrow> (error + 'c) \<times> nat \<times> nat" where
  "connect_loop connect attempt slept =
     (if attempt < 10 then
        (case connect attempt of
           Some conn \<Rightarrow> (Inr conn, Suc attempt, slept)
         | None \<Rightarrow> connect_loop connect (Suc attempt) (slept + 5))
      else (Inl CouldNotConnect, attempt, slept))"
  by pat_completeness auto
termination
  by (relation "measure (\<lambda>(connect, attempt, slept). 10 - attempt)") auto

definition get_db_connection :: "(nat \<Rightarrow> 'c option) \<Rightarrow> (error + 'c) \<times> nat \<times> nat" where
  "get_db_connection connect = connect_loop connect 0 0"

section \<open>Tables of the analytics database\<close>

text \<open>
  The fourteen columns the production query of \<^verbatim>\<open>process_crm_data_1\<close> selects (crm.py,
  lines 35-56).  The query keeps accounts with a phone number only
  (\<^verbatim>\<open>WHERE a.phone_number IS NOT NULL\<close>), so \<open>msisdn\<close> is never NULL; the device and
  address columns come from \<^verbatim>\<open>LEFT JOIN\<close>s and are NULL (\<open>None\<close>) for an account
  without device or address.  Timestamps are integers (microseconds).
\<close>

record crm_source_row =
  account_id :: int
  owner_name :: "string option"
  email :: "string option"
  msisdn :: string
  device_id :: "int option"
  device_name :: "string option"
  device_type :: "string option"
  device_os :: "string option"
  street_address :: "string option"
  city :: "string option"
  state :: "string option"
  postal_code :: "string option"
  country :: "string option"
  last_modified :: int

text \<open>
  A row of \<^verbatim>\<open>prepared_layers.crm_flattened_balance\<close> (crm.py, lines 83-106): the source
  columns and the seven columns \<^verbatim>\<open>process_crm_data_1\<close> adds to the data frame.
\<close>

record crm_row = crm_source_row +
  total_data_bytes :: int
  data_cost_zar :: decimal2
  total_call_seconds :: int
  voice_cost_zar :: decimal2
  total_cost_zar :: decimal2
  running_balance_zar :: decimal2
  created_at :: int

text \<open>
  The raw usage tables \<^verbatim>\<open>cdr_data.cdr_data\<close> and \<^verbatim>\<open>cdr_data.cdr_voice\<close>, with the
  columns \<^verbatim>\<open>update_crm_balances_from_cdr\<close> reads.  Any of them may be NULL.
\<close>

record cdr_data_row =
  data_msisdn :: "string option"
  up_bytes :: "int option"
  down_bytes :: "int option"

record cdr_voice_row =
  voice_msisdn :: "string option"
  call_duration_sec :: "int option"

text \<open>A row of \<^verbatim>\<open>prepared_layers.cdr_tower_sessions\<close> (database.py, lines 123-131).\<close>

record tower_session =
  session_msisdn :: string
  tower_id :: int
  session_start :: int
  session_end :: int
  interaction_count :: int

text \<open>
  The analytics database, as far as the modelled code reads or writes it.
  \<open>crm_flattened_balance = None\<close>: the table does not exist.  \<open>processing_state\<close> is
  the watermark table (layer name, last processed datetime) of database.py, lines 237-244.
\<close>

record analytics_db =
  crm_flattened_balance :: "crm_row list option"
  cdr_data :: "cdr_data_row list"
  cdr_voice :: "cdr_voice_row list"
  cdr_tower_sessions :: "tower_session list"
  processing_state :: "(string \<times> int) list"

text \<open>
  A psycopg2 connection: what is committed, and what the open transaction sees.
  PostgreSQL's DDL is transactional, so \<^verbatim>\<open>DROP TABLE\<close> and \<^verbatim>\<open>CREATE TABLE\<close> are part of
  the transaction like any other statement.  Closing a connection discards what is
  pending.
\<close>

record connection =
  durable :: analytics_db
  pending :: analytics_db

definition open_connection :: "analytics_db \<Rightarrow> connection" where
  "open_connection db = \<lparr>durable = db, pending = db\<rparr>"

definition commit :: "connection \<Rightarrow> connection" where
  "commit c = c\<lparr>durable := pending c\<rparr>"

definition rollback :: "connection \<Rightarrow> connection" where
  "rollback c = c\<lparr>pending := durable c\<rparr>"

definition close :: "connection \<Rightarrow> analytics_db" where
  "close c = durable c"

definition set_balance_table :: "crm_row list option \<Rightarrow> connection \<Rightarrow> connection" where
  "set_balance_table t c = c\<lparr>pending := (pending c)\<lparr>crm_flattened_balance := t\<rparr>\<rparr>"

section \<open>The environment of a pass\<close>

text \<open>
  The database calls of crm.py, in program order.  \<open>fails env call\<close> says that the
  environment makes that call raise (a lost connection, a lock timeout, a value the
  column cannot take): the call then has no effect and raises \<open>OperationalError\<close>.
\<close>

datatype db_call =
    ReadCrm
  | DropCreate
  | CommitTable
  | InsertRows
  | CommitRows
  | SelectSample
  | UpdateUsage
  | UpdateTotals
  | CommitBalances

record env =
  connect_prod :: "nat \<Rightarrow> unit option"
  connect_analytics :: "nat \<Rightarrow> unit option"
  crm_query :: "crm_source_row list"
  now :: int
  fails :: "db_call \<Rightarrow> bool"

datatype outcome = Returned | Raised error

section \<open>process\_crm\_data\_1\<close>

text \<open>
  Lines 67-73: the placeholder columns, all zero, and \<^verbatim>\<open>created_at = pd.Timestamp.now()\<close>.
\<close>

definition add_cost_fields :: "int \<Rightarrow> crm_source_row \<Rightarrow> crm_row" where
  "add_cost_fields ts s =
     \<lparr>account_id = account_id s, owner_name = owner_name s, email = email s,
      msisdn = msisdn s, device_id = device_id s, device_name = device_name s,
      device_type = device_type s, device_os = device_os s,
      street_address = street_address s, city = city s, state = state s,
      postal_code = postal_code s, country = country s, last_modified = last_modified s,
      total_data_bytes = 0, data_cost_zar = Decimal2 0, total_call_seconds = 0,
      voice_cost_zar = Decimal2 0, total_cost_zar = Decimal2 0,
      running_balance_zar = Decimal2 0, created_at = ts\<rparr>"

text \<open>The primary key \<^verbatim>\<open>(account_id, device_id)\<close>.\<close>

definition row_key :: "crm_row \<Rightarrow> int \<times> int option" where
  "row_key r = (account_id r, device_id r)"

text \<open>
  \<^verbatim>\<open>ON CONFLICT (account_id, device_id) DO UPDATE SET ...\<close> (lines 124-137): the twelve
  listed columns of the existing row take the values of the proposed row
  (\<^verbatim>\<open>EXCLUDED\<close>); the cost columns and \<^verbatim>\<open>created_at\<close> are not listed and stay.
\<close>

definition on_conflict_update :: "crm_row \<Rightarrow> crm_row \<Rightarrow> crm_row" where
  "on_conflict_update existing excluded =
     existing\<lparr>owner_name := owner_name excluded, email := email excluded,
       msisdn := msisdn excluded, device_name := device_name excluded,
       device_type := device_type excluded, device_os := device_os excluded,
       street_address := street_address excluded, city := city excluded,
       state := state excluded, postal_code := postal_code excluded,
       country := country excluded, last_modified := last_modified excluded\<rparr>"

text \<open>
  One \<^verbatim>\<open>INSERT ... VALUES ... ON CONFLICT DO UPDATE\<close> statement over the proposed rows,
  in order.  \<open>touched\<close> holds the keys this statement has already inserted or updated.
  A proposed row without \<^verbatim>\<open>device_id\<close> is refused: the primary key makes the column
  NOT NULL (and the NaN by which the data frame hands a missing integer over is no
  \<^verbatim>\<open>INTEGER\<close> either).  A second proposed row with a key of the same statement raises
  "ON CONFLICT DO UPDATE command cannot affect row a second time"; a key already in the
  table updates that row; any other row is inserted.
\<close>

fun insert_rows :: "crm_row list \<Rightarrow> (int \<times> int option) list \<Rightarrow> crm_row list \<Rightarrow> error + crm_row list" where
  "insert_rows tbl touched [] = Inr tbl"
| "insert_rows tbl touched (r # rs) =
     (if device_id r = None then Inl NotNullViolation
      else if row_key r \<in> set touched then Inl CardinalityViolation
      else if row_key r \<in> set (map row_key tbl) then
        insert_rows
          (map (\<lambda>existing. if row_key existing = row_key r
                            then on_conflict_update existing r else existing) tbl)
          (row_key r # touched) rs
      else insert_rows (tbl @ [r]) (row_key r # touched) rs)"

text \<open>
  \<^verbatim>\<open>psycopg2.extras.execute_values\<close> with its default \<^verbatim>\<open>page_size=100\<close>: the records
  are cut into pages of at most 100 and one statement is executed per page.
\<close>

function paginate :: "'a list \<Rightarrow> 'a list list" where
  "paginate xs = (if xs = [] then [] else take 100 xs # paginate (drop 100 xs))"
  by pat_completeness auto
termination
  by (relation "measure length") auto

text \<open>
  The pages are executed in order in the open transaction; the first statement that
  raises stops the call, with the earlier pages still pending.
\<close>

fun execute_pages :: "crm_row list \<Rightarrow> crm_row list list \<Rightarrow> error option \<times> crm_row list" where
  "execute_pages tbl [] = (None, tbl)"
| "execute_pages tbl (page # rest) =
     (case insert_rows tbl [] page of
        Inl e \<Rightarrow> (Some e, tbl)
      | Inr tbl' \<Rightarrow> execute_pages tbl' rest)"

definition execute_values :: "crm_row list \<Rightarrow> crm_row list \<Rightarrow> error option \<times> crm_row list" where
  "execute_values tbl records = execute_pages tbl (paginate records)"

text \<open>
  The body of the \<^verbatim>\<open>try\<close> (lines 33-154).  It gives the exception raised, if any, and
  the connection as it is at that point.
\<close>

definition crm_try_block :: "env \<Rightarrow> connection \<Rightarrow> error option \<times> connection" where
  "crm_try_block env c =
     (if fails env ReadCrm then (Some OperationalError, c)
      else if crm_query env = [] then (None, c)
      else
        let records = map (add_cost_fields (now env)) (crm_query env) in
        if fails env DropCreate then (Some OperationalError, c)
        else
          let c1 = set_balance_table (Some []) c in
          if fails env CommitTable then (Some OperationalError, c1)
          else
            let c2 = commit c1 in
            if fails env InsertRows then (Some OperationalError, c2)
            else
              (case crm_flattened_balance (pending c2) of
                 None \<Rightarrow> (Some UndefinedTable, c2)
               | Some tbl \<Rightarrow>
                   (case execute_values tbl records of
                      (Some e, tbl') \<Rightarrow> (Some e, set_balance_table (Some tbl') c2)
                    | (None, tbl') \<Rightarrow>
                        let c3 = set_balance_table (Some tbl') c2 in
                        if fails env CommitRows then (Some OperationalError, c3)
                        else
                          let c4 = commit c3 in
                          if fails env SelectSample then (Some OperationalError, c4)
                          else (None, c4))))"

text \<open>
  The whole function: the two connections are made before the \<^verbatim>\<open>try\<close>; an exception
  in the body runs \<^verbatim>\<open>conn_analytics.rollback()\<close> and is raised again; \<^verbatim>\<open>finally\<close>
  closes the connections.  The result is the outcome and the database as committed.
\<close>

definition process_crm_data_1 :: "env \<Rightarrow> analytics_db \<Rightarrow> outcome \<times> analytics_db" where
  "process_crm_data_1 env db =
     (case fst (get_db_connection (connect_prod env)) of
        Inl e \<Rightarrow> (Raised e, db)
      | Inr conn_prod \<Rightarrow>
          (case fst (get_db_connection (connect_analytics env)) of
             Inl e \<Rightarrow> (Raised e, db)
           | Inr conn_analytics \<Rightarrow>
               (case crm_try_block env (open_connection db) of
                  (Some e, c) \<Rightarrow> (Raised e, close (rollback c))
                | (None, c) \<Rightarrow> (Returned, close c))))"

section \<open>update\_crm\_balances\_from\_cdr\<close>

text \<open>SQL integer ranges: \<^verbatim>\<open>BIGINT\<close> and \<^verbatim>\<open>INTEGER\<close>.\<close>

definition in_bigint :: "int \<Rightarrow> bool" where
  "in_bigint x = (- 9223372036854775808 \<le> x \<and> x \<le> 9223372036854775807)"

definition in_integer :: "int \<Rightarrow> bool" where
  "in_integer x = (- 2147483648 \<le> x \<and> x \<le> 2147483647)"

text \<open>\<^verbatim>\<open>CAST(v AS BIGINT)\<close> and \<^verbatim>\<open>CAST(v AS INTEGER)\<close>: NULL stays NULL, a value out of range raises.\<close>

definition sql_cast :: "(int \<Rightarrow> bool) \<Rightarrow> int option \<Rightarrow> error + int option" where
  "sql_cast in_range v =
     (case v of
        None \<Rightarrow> Inr None
      | Some x \<Rightarrow> if in_range x then Inr (Some x) else Inl NumericValueOutOfRange)"

text \<open>\<^verbatim>\<open>CAST(up_bytes AS BIGINT) + CAST(down_bytes AS BIGINT)\<close>: NULL if either is NULL.\<close>

definition row_bytes :: "cdr_data_row \<Rightarrow> error + int option" where
  "row_bytes d =
     (case sql_cast in_bigint (up_bytes d) of
        Inl e \<Rightarrow> Inl e
      | Inr u \<Rightarrow>
          (case sql_cast in_bigint (down_bytes d) of
             Inl e \<Rightarrow> Inl e
           | Inr w \<Rightarrow>
               (case (u, w) of
                  (Some x, Some y) \<Rightarrow>
                    if in_bigint (x + y) then Inr (Some (x + y)) else Inl NumericValueOutOfRange
                | _ \<Rightarrow> Inr None)))"

text \<open>A statement's per-row computation: the first row that raises aborts it.\<close>

fun mapM :: "('a \<Rightarrow> error + 'b) \<Rightarrow> 'a list \<Rightarrow> error + 'b list" where
  "mapM f [] = Inr []"
| "mapM f (x # xs) =
     (case f x of
        Inl e \<Rightarrow> Inl e
      | Inr y \<Rightarrow> (case mapM f xs of Inl e \<Rightarrow> Inl e | Inr ys \<Rightarrow> Inr (y # ys)))"

text \<open>\<^verbatim>\<open>SUM\<close> skips NULLs and is NULL when nothing is left.\<close>

definition sql_sum :: "int option list \<Rightarrow> int option" where
  "sql_sum vs =
     (if List.map_filter (\<lambda>v. v) vs = [] then None
      else Some (sum_list (List.map_filter (\<lambda>v. v) vs)))"

text \<open>
  The subquery \<^verbatim>\<open>cdr_summary\<close> (lines 186-191): one row per \<^verbatim>\<open>msisdn\<close> of
  \<^verbatim>\<open>cdr_data.cdr_data\<close> (NULLs form one group), with the sum of its bytes.  The sum of
  \<^verbatim>\<open>BIGINT\<close>s is a \<^verbatim>\<open>numeric\<close> and cannot overflow.
\<close>

definition cdr_summary :: "cdr_data_row list \<Rightarrow> error + (string option \<times> int option) list" where
  "cdr_summary rows =
     (case mapM row_bytes rows of
        Inl e \<Rightarrow> Inl e
      | Inr bytes \<Rightarrow>
          Inr (map (\<lambda>m. (m, sql_sum (map snd (filter (\<lambda>p. fst p = m) (zip (map data_msisdn rows) bytes)))))
                 (remdups (map data_msisdn rows))))"

text \<open>
  The subquery \<^verbatim>\<open>voice_summary\<close> (lines 193-198): one row per \<^verbatim>\<open>msisdn\<close> of
  \<^verbatim>\<open>cdr_data.cdr_voice\<close>, with the sum of its seconds.  The sum of \<^verbatim>\<open>INTEGER\<close>s is a
  \<^verbatim>\<open>BIGINT\<close>.
\<close>

definition voice_summary :: "cdr_voice_row list \<Rightarrow> error + (string option \<times> int option) list" where
  "voice_summary rows =
     (case mapM (\<lambda>v. sql_cast in_integer (call_duration_sec v)) rows of
        Inl e \<Rightarrow> Inl e
      | Inr secs \<Rightarrow>
          mapM (\<lambda>m. case sql_cast in_bigint
                           (sql_sum (map snd (filter (\<lambda>p. fst p = m) (zip (map voice_msisdn rows) secs)))) of
                      Inl e \<Rightarrow> Inl e
                    | Inr s \<Rightarrow> Inr (m, s))
            (remdups (map voice_msisdn rows)))"

text \<open>
  \<^verbatim>\<open>cdr_summary LEFT JOIN voice_summary ON cdr_summary.msisdn = voice_summary.msisdn\<close>:
  every row of \<^verbatim>\<open>cdr_summary\<close>, with the seconds of the voice row of the same
  \<^verbatim>\<open>msisdn\<close>, or NULL when there is none (NULL equals nothing).  A joined row is
  \<open>(msisdn, total_bytes, total_seconds)\<close>.
\<close>

definition usage_join ::
  "(string option \<times> int option) list \<Rightarrow> (string option \<times> int option) list
     \<Rightarrow> (string option \<times> int option \<times> int option) list" where
  "usage_join cs vs =
     map (\<lambda>c. (fst c, snd c,
            (case fst c of
               None \<Rightarrow> None
             | Some m \<Rightarrow> (case find (\<lambda>v. fst v = Some m) vs of None \<Rightarrow> None | Some v \<Rightarrow> snd v))))
       cs"

definition usage_rows :: "analytics_db \<Rightarrow> error + (string option \<times> int option \<times> int option) list" where
  "usage_rows db =
     (case cdr_summary (cdr_data db) of
        Inl e \<Rightarrow> Inl e
      | Inr cs \<Rightarrow>
          (case voice_summary (cdr_voice db) of
             Inl e \<Rightarrow> Inl e
           | Inr vs \<Rightarrow> Inr (usage_join cs vs)))"

text \<open>\<^verbatim>\<open>COALESCE(v, 0)\<close>.\<close>

definition coalesce0 :: "int option \<Rightarrow> int" where
  "coalesce0 v = (case v of None \<Rightarrow> 0 | Some x \<Rightarrow> x)"

text \<open>
  The \<^verbatim>\<open>SET\<close> list of the first \<^verbatim>\<open>UPDATE\<close> (lines 181-184) for one profile row and its
  joined row, with the range checks of the target columns (\<^verbatim>\<open>BIGINT\<close>,
  \<^verbatim>\<open>DECIMAL(10,2)\<close>, \<^verbatim>\<open>INTEGER\<close>, \<^verbatim>\<open>DECIMAL(10,2)\<close>).
\<close>

definition set_usage :: "string option \<times> int option \<times> int option \<Rightarrow> crm_row \<Rightarrow> error + crm_row" where
  "set_usage j r =
     (let total_bytes = coalesce0 (fst (snd j)); total_seconds = coalesce0 (snd (snd j))
      in if \<not> in_bigint total_bytes then Inl NumericValueOutOfRange
         else (case to_decimal_10_2 (data_cost_zar_expr total_bytes) of
             Inl e \<Rightarrow> Inl e
           | Inr dc \<Rightarrow>
               if \<not> in_integer total_seconds then Inl NumericValueOutOfRange
               else (case to_decimal_10_2 (voice_cost_zar_expr total_seconds) of
                   Inl e \<Rightarrow> Inl e
                 | Inr vc \<Rightarrow>
                     Inr (r\<lparr>total_data_bytes := total_bytes, data_cost_zar := dc,
                            total_call_seconds := total_seconds, voice_cost_zar := vc\<rparr>))))"

text \<open>
  The first \<^verbatim>\<open>UPDATE ... FROM ... WHERE crm.msisdn = cdr_summary.msisdn\<close>: a profile row
  with a joined row of its \<^verbatim>\<open>msisdn\<close> is updated, any other row is left as it is.
\<close>

definition update_usage ::
  "(string option \<times> int option \<times> int option) list \<Rightarrow> crm_row list \<Rightarrow> error + crm_row list" where
  "update_usage js tbl =
     mapM (\<lambda>r. case find (\<lambda>j. fst j = Some (msisdn r)) js of
                 None \<Rightarrow> Inr r
               | Some j \<Rightarrow> set_usage j r) tbl"

text \<open>
  The second \<^verbatim>\<open>UPDATE\<close> (lines 203-209), guarded by
  \<^verbatim>\<open>WHERE total_data_bytes > 0 OR total_call_seconds > 0\<close>.
\<close>

definition set_totals :: "crm_row \<Rightarrow> error + crm_row" where
  "set_totals r =
     (if 0 < total_data_bytes r \<or> 0 < total_call_seconds r then
        (case store_10_2 (dec_add (data_cost_zar r) (voice_cost_zar r)) of
           Inl e \<Rightarrow> Inl e
         | Inr sum_cost \<Rightarrow>
             (case store_10_2 (dec_neg (dec_add (data_cost_zar r) (voice_cost_zar r))) of
                Inl e \<Rightarrow> Inl e
              | Inr balance \<Rightarrow>
                  Inr (r\<lparr>total_cost_zar := sum_cost, running_balance_zar := balance\<rparr>)))
      else Inr r)"

definition update_totals :: "crm_row list \<Rightarrow> error + crm_row list" where
  "update_totals tbl = mapM set_totals tbl"

text \<open>The body of the \<^verbatim>\<open>try\<close> (lines 175-214): two updates, then one commit.\<close>

definition balances_try_block :: "env \<Rightarrow> connection \<Rightarrow> error option \<times> connection" where
  "balances_try_block env c =
     (if fails env UpdateUsage then (Some OperationalError, c)
      else
        (case crm_flattened_balance (pending c) of
           None \<Rightarrow> (Some UndefinedTable, c)
         | Some tbl \<Rightarrow>
             (case usage_rows (pending c) of
                Inl e \<Rightarrow> (Some e, c)
              | Inr js \<Rightarrow>
                  (case update_usage js tbl of
                     Inl e \<Rightarrow> (Some e, c)
                   | Inr tbl1 \<Rightarrow>
                       let c1 = set_balance_table (Some tbl1) c in
                       if fails env UpdateTotals then (Some OperationalError, c1)
                       else
                         (case update_totals tbl1 of
                            Inl e \<Rightarrow> (Some e, c1)
                          | Inr tbl2 \<Rightarrow>
                              let c2 = set_balance_table (Some tbl2) c1 in
                              if fails env CommitBalances then (Some OperationalError, c2)
                              else (None, commit c2))))))"

definition update_crm_balances_from_cdr :: "env \<Rightarrow> analytics_db \<Rightarrow> outcome \<times> analytics_db" where
  "update_crm_balances_from_cdr env db =
     (case fst (get_db_connection (connect_analytics env)) of
        Inl e \<Rightarrow> (Raised e, db)
      | Inr conn \<Rightarrow>
          (case balances_try_block env (open_connection db) of
             (Some e, c) \<Rightarrow> (Raised e, close (rollback c))
           | (None, c) \<Rightarrow> (Returned, close c)))"

section \<open>Tower sessions\<close>

text \<open>
  Modelled from the spec: a tower event (section 3, TowerEvent) with its subscriber,
  tower and timestamp in seconds.  The sessionizer, \<^verbatim>\<open>process_cdr_data_2\<close> of
  \<^verbatim>\<open>prepared_layers/layers/cdr.py\<close>, is not among the sources.
\<close>

record tower_event =
  event_msisdn :: string
  event_tower_id :: int
  event_timestamp :: int

text \<open>
  Modelled from the spec: an event on its own opens a session that starts and ends at
  the event's timestamp, with \<^verbatim>\<open>interaction_count = 1\<close> (section 4.2).
\<close>

definition open_session :: "tower_event \<Rightarrow> tower_session" where
  "open_session e =
     \<lparr>session_msisdn = event_msisdn e, tower_id = event_tower_id e,
      session_start = event_timestamp e, session_end = event_timestamp e,
      interaction_count = 1\<rparr>"

text \<open>Modelled from the spec: folding one more event into the open session.\<close>

definition extend_session :: "tower_session \<Rightarrow> tower_event \<Rightarrow> tower_session" where
  "extend_session s e =
     s\<lparr>session_end := event_timestamp e, interaction_count := interaction_count s + 1\<rparr>"

text \<open>
  Modelled from the spec: an event continues the open session when it is on the same
  tower and the gap since the session's last event does not exceed the threshold
  ("a new tower id or a gap exceeding the threshold closes the current session").
\<close>

definition continues :: "int \<Rightarrow> tower_session \<Rightarrow> tower_event \<Rightarrow> bool" where
  "continues gap s e =
     (event_tower_id e = tower_id s \<and> event_timestamp e - session_end s \<le> gap)"

text \<open>
  Modelled from the spec: the sequential scan of section 4.2 with its open session; at
  the end of the input the open session is emitted.
\<close>

fun scan_events :: "int \<Rightarrow> tower_session \<Rightarrow> tower_event list \<Rightarrow> tower_session list" where
  "scan_events gap cur [] = [cur]"
| "scan_events gap cur (e # es) =
     (if continues gap cur e then scan_events gap (extend_session cur e) es
      else cur # scan_events gap (open_session e) es)"

text \<open>
  Modelled from the spec: the sessionizer over the ordered events of one subscriber;
  no event, no session.
\<close>

fun sessionize :: "int \<Rightarrow> tower_event list \<Rightarrow> tower_session list" where
  "sessionize gap [] = []"
| "sessionize gap (e # es) = scan_events gap (open_session e) es"

text \<open>Modelled from the spec: the sessions of every subscriber of the input.\<close>

definition subscriber_sessions :: "int \<Rightarrow> tower_event list \<Rightarrow> tower_session list" where
  "subscriber_sessions gap events =
     concat (map (\<lambda>m. sessionize gap (filter (\<lambda>e. event_msisdn e = m) events))
               (remdups (map event_msisdn events)))"

text \<open>
  Modelled from the spec: the tower sessions pass.  The table is emptied
  (\<^verbatim>\<open>TRUNCATE TABLE prepared_layers.cdr_tower_sessions\<close>, which
  \<^verbatim>\<open>tests/test_prepared_layers.py\<close> expects even when no event is fetched), the sessions
  of the fetched events are inserted, and the transaction is committed.
\<close>

definition process_cdr_data_2 :: "int \<Rightarrow> tower_event list \<Rightarrow> analytics_db \<Rightarrow> analytics_db" where
  "process_cdr_data_2 gap events db =
     (let truncated = db\<lparr>cdr_tower_sessions := []\<rparr>
      in truncated\<lparr>cdr_tower_sessions :=
           cdr_tower_sessions truncated @ subscriber_sessions gap events\<rparr>)"

section \<open>Auxiliary notions for the statements\<close>

text \<open>\<open>connected connect\<close>: \<^verbatim>\<open>get_db_connection\<close> returns a connection in this environment.\<close>

definition connected :: "(nat \<Rightarrow> unit option) \<Rightarrow> bool" where
  "connected connect = (fst (get_db_connection connect) = Inr ())"

text \<open>A row with its \<^verbatim>\<open>created_at\<close> blanked, to compare rows written at different times.\<close>

definition without_created_at :: "crm_row \<Rightarrow> crm_row" where
  "without_created_at r = r\<lparr>created_at := 0\<rparr>"

text \<open>The guard of the second \<^verbatim>\<open>UPDATE\<close> and the balance invariant of a row.\<close>

definition has_usage :: "crm_row \<Rightarrow> bool" where
  "has_usage r = (0 < total_data_bytes r \<or> 0 < total_call_seconds r)"

definition balanced :: "crm_row \<Rightarrow> bool" where
  "balanced r =
     (dec_val (total_cost_zar r) = dec_val (data_cost_zar r) + dec_val (voice_cost_zar r)
      \<and> dec_val (running_balance_zar r) = - dec_val (total_cost_zar r))"

text \<open>
  Raw usage without negative measures, and a profile row as \<^verbatim>\<open>process_crm_data_1\<close>
  writes it: no usage, no cost.
\<close>

definition nonneg_option :: "int option \<Rightarrow> bool" where
  "nonneg_option v = (0 \<le> coalesce0 v)"

definition nonneg_usage :: "analytics_db \<Rightarrow> bool" where
  "nonneg_usage db =
     (list_all (\<lambda>d. nonneg_option (up_bytes d) \<and> nonneg_option (down_bytes d)) (cdr_data db)
      \<and> list_all (\<lambda>v. nonneg_option (call_duration_sec v)) (cdr_voice db))"

definition unbilled :: "crm_row \<Rightarrow> bool" where
  "unbilled r =
     (total_data_bytes r = 0 \<and> data_cost_zar r = Decimal2 0 \<and> total_call_seconds r = 0
      \<and> voice_cost_zar r = Decimal2 0 \<and> total_cost_zar r = Decimal2 0
      \<and> running_balance_zar r = Decimal2 0)"

text \<open>
  The data records of a subscriber, the bytes of one record
  (\<^verbatim>\<open>up_bytes + down_bytes\<close>, NULL if either is NULL) and the subscriber's total, as the
  summary subquery and \<^verbatim>\<open>COALESCE\<close> give it.
\<close>

definition data_records :: "analytics_db \<Rightarrow> string \<Rightarrow> cdr_data_row list" where
  "data_records db m = filter (\<lambda>d. data_msisdn d = Some m) (cdr_data db)"

definition record_bytes :: "cdr_data_row \<Rightarrow> int option" where
  "record_bytes d =
     (case (up_bytes d, down_bytes d) of (Some x, Some y) \<Rightarrow> Some (x + y) | _ \<Rightarrow> None)"

definition subscriber_bytes :: "analytics_db \<Rightarrow> string \<Rightarrow> int" where
  "subscriber_bytes db m = coalesce0 (sql_sum (map record_bytes (data_records db m)))"

text \<open>
  \<open>last_wins records tbl\<close>: the table holds one row per key of the proposed records,
  and the row of a key is the last proposed record with that key.
\<close>

definition last_wins :: "crm_row list \<Rightarrow> crm_row list \<Rightarrow> bool" where
  "last_wins records tbl =
     (distinct (map row_key tbl)
      \<and> set (map row_key tbl) = set (map row_key records)
      \<and> list_all (\<lambda>r. r = last (filter (\<lambda>x. row_key x = row_key r) records)) tbl)"

section \<open>Example data\<close>

text \<open>Concrete inputs on which the theorems below are run.\<close>

definition connect_fourth :: "nat \<Rightarrow> nat option" where
  "connect_fourth i = (if i = 3 then Some 7 else None)"

definition connect_never :: "nat \<Rightarrow> nat option" where
  "connect_never i = None"

definition always_up :: "nat \<Rightarrow> unit option" where
  "always_up i = Some ()"

definition no_faults :: "db_call \<Rightarrow> bool" where
  "no_faults call = False"

text \<open>The account of \<^verbatim>\<open>tests/test_prepared_layers.py\<close>, and an account without a device.\<close>

definition john :: crm_source_row where
  "john = \<lparr>account_id = 1, owner_name = Some ''John Doe'', email = Some ''john@example.com'',
     msisdn = ''27820000001'', device_id = Some 101, device_name = Some ''iPhone'',
     device_type = Some ''Mobile'', device_os = Some ''iOS'',
     street_address = Some ''123 Main St'', city = Some ''Cape Town'',
     state = Some ''Western Cape'', postal_code = Some ''8000'',
     country = Some ''South Africa'', last_modified = 1000\<rparr>"

definition mary :: crm_source_row where
  "mary = \<lparr>account_id = 2, owner_name = Some ''Mary Roe'', email = None,
     msisdn = ''27820000002'', device_id = None, device_name = None,
     device_type = None, device_os = None, street_address = None, city = None,
     state = None, postal_code = None, country = None, last_modified = 2000\<rparr>"

definition env_of :: "crm_source_row list \<Rightarrow> int \<Rightarrow> env" where
  "env_of rows ts = \<lparr>connect_prod = always_up, connect_analytics = always_up,
     crm_query = rows, now = ts, fails = no_faults\<rparr>"

text \<open>A database without the profile table, and one whose profile holds John's row.\<close>

definition empty_db :: analytics_db where
  "empty_db = \<lparr>crm_flattened_balance = None, cdr_data = [], cdr_voice = [],
     cdr_tower_sessions = [], processing_state = [(''crm_data_1'', 500)]\<rparr>"

definition john_db :: analytics_db where
  "john_db = empty_db\<lparr>crm_flattened_balance := Some [add_cost_fields 7 john]\<rparr>"

text \<open>Raw usage of John's number, and the profile rows the passes below produce.\<close>

definition gib_of_data :: cdr_data_row where
  "gib_of_data = \<lparr>data_msisdn = Some ''27820000001'', up_bytes = Some 1073741000, down_bytes = Some 824\<rparr>"

definition no_data :: cdr_data_row where
  "no_data = \<lparr>data_msisdn = Some ''27820000001'', up_bytes = Some 0, down_bytes = Some 0\<rparr>"

definition two_minutes :: cdr_voice_row where
  "two_minutes = \<lparr>voice_msisdn = Some ''27820000001'', call_duration_sec = Some 120\<rparr>"

definition usage_db :: "cdr_data_row list \<Rightarrow> cdr_voice_row list \<Rightarrow> analytics_db" where
  "usage_db ds vs = john_db\<lparr>cdr_data := ds, cdr_voice := vs\<rparr>"

definition billed_john :: crm_row where
  "billed_john = (add_cost_fields 7 john)\<lparr>total_data_bytes := 1073741824,
     data_cost_zar := Decimal2 4900, total_call_seconds := 120, voice_cost_zar := Decimal2 200,
     total_cost_zar := Decimal2 5100, running_balance_zar := Decimal2 (- 5100)\<rparr>"

definition stale_john :: crm_row where
  "stale_john = (add_cost_fields 7 john)\<lparr>total_data_bytes := 0,
     data_cost_zar := Decimal2 0, total_call_seconds := 0, voice_cost_zar := Decimal2 0,
     total_cost_zar := Decimal2 4900, running_balance_zar := Decimal2 (- 4900)\<rparr>"

text \<open>
  One mebibyte of John's data and his row after the balance pass over it; John after
  a move, and a hundred accounts in all, so that the records of a pass fill more than
  one page.
\<close>

definition mebibyte_of_data :: cdr_data_row where
  "mebibyte_of_data = \<lparr>data_msisdn = Some ''27820000001'', up_bytes = Some 1048000, down_bytes = Some 576\<rparr>"

definition mebibyte_john :: crm_row where
  "mebibyte_john = (add_cost_fields 7 john)\<lparr>total_data_bytes := 1048576,
     data_cost_zar := Decimal2 5, total_call_seconds := 0, voice_cost_zar := Decimal2 0,
     total_cost_zar := Decimal2 5, running_balance_zar := Decimal2 (- 5)\<rparr>"

definition gibibyte_john :: crm_row where
  "gibibyte_john = (add_cost_fields 7 john)\<lparr>total_data_bytes := 1073741824,
     data_cost_zar := Decimal2 4900, total_call_seconds := 0, voice_cost_zar := Decimal2 0,
     total_cost_zar := Decimal2 4900, running_balance_zar := Decimal2 (- 4900)\<rparr>"

definition john_moved :: crm_source_row where
  "john_moved = john\<lparr>street_address := Some ''9 Beach Rd'', city := Some ''Durban'',
     state := Some ''KwaZulu-Natal'', postal_code := Some ''4001'', last_modified := 1500\<rparr>"

definition other_accounts :: "crm_source_row list" where
  "other_accounts = map (\<lambda>i. john\<lparr>account_id := int i\<rparr>) [2..<101]"


section \<open>Properties of the cost formulas\<close>

declare connect_loop.simps [simp del]
declare paginate.simps [simp del]

lemma round_half_away_of_int: "round_half_away (of_int n) = n"
proof -
  have "\<lfloor>(of_int n :: rat) + 1 / 2\<rfloor> = n" by linarith
  moreover have "\<lfloor>- (of_int n :: rat) + 1 / 2\<rfloor> = - n" by linarith
  ultimately show ?thesis by (simp add: round_half_away_def)
qed

lemma to_decimal_10_2_hundredths:
  "fits_10_2 n \<Longrightarrow> to_decimal_10_2 (of_int n / 100) = Inr (Decimal2 n)"
  using round_half_away_of_int [of n] by (simp add: to_decimal_10_2_def)

lemma py_round_nearest: "\<bar>of_int (py_round x) - x\<bar> \<le> 1 / 2"
proof -
  have "of_int \<lfloor>x\<rfloor> \<le> x" "x < of_int \<lfloor>x\<rfloor> + 1" by linarith+
  then show ?thesis
    by (auto simp: py_round_def Let_def)
qed

lemma round_half_away_nearest: "\<bar>of_int (round_half_away x) - x\<bar> \<le> 1 / 2"
proof (cases "0 \<le> x")
  case True
  define f where "f = \<lfloor>x + 1 / 2\<rfloor>"
  have "of_int f \<le> x + 1 / 2" "x + 1 / 2 < of_int f + 1"
    unfolding f_def by linarith+
  then have "\<bar>of_int f - x\<bar> \<le> 1 / 2" by linarith
  then show ?thesis using True by (simp only: round_half_away_def f_def if_True)
next
  case False
  define f where "f = \<lfloor>- x + 1 / 2\<rfloor>"
  have "of_int f \<le> - x + 1 / 2" "- x + 1 / 2 < of_int f + 1"
    unfolding f_def by linarith+
  then have "\<bar>- of_int f - x\<bar> \<le> 1 / 2" by linarith
  then have "\<bar>of_int (- f) - x\<bar> \<le> 1 / 2" by (simp only: of_int_minus)
  then show ?thesis using False by (simp only: round_half_away_def f_def if_False)
qed

lemma to_decimal_10_2_nearest:
  assumes "to_decimal_10_2 x = Inr d"
  shows "\<bar>dec_val d - x\<bar> \<le> 1 / 200"
proof -
  from assms have d: "d = Decimal2 (round_half_away (x * 100))"
    by (simp add: to_decimal_10_2_def Let_def split: if_splits)
  have "\<bar>of_int (round_half_away (x * 100)) - x * 100\<bar> \<le> 1 / 2"
    by (rule round_half_away_nearest)
  then have "\<bar>(of_int (round_half_away (x * 100)) - x * 100) / 100\<bar> \<le> (1 / 2) / 100"
    by (simp only: abs_divide) (simp add: divide_le_cancel)
  then show ?thesis by (simp add: d diff_divide_distrib)
qed

text \<open>
  The data cost expression is \<open>b / 2^30 * DATA_COST_PER_GB\<close>; a cost that is a whole
  number of hundredths is stored as it is.
\<close>

lemma data_cost_zar_expr_formula:
  "data_cost_zar_expr b = of_int b / 2 ^ 30 * of_int DATA_COST_PER_GB"
  by (simp add: data_cost_zar_expr_def)

lemma to_decimal_10_2_exact:
  assumes "to_decimal_10_2 x = Inr d" and "x = of_int n / 100"
  shows "d = Decimal2 n"
  using assms round_half_away_of_int [of n]
  by (simp add: to_decimal_10_2_def Let_def split: if_splits)

text \<open>
  \<^verbatim>\<open>tests/test_hvs.py\<close> calls the streaming helper with 1,000,000,000 bytes and expects
  the conversion of 49.  A helper that converted the cost expression of the balance
  pass would fail that test at every rate of at least one half: 1,000,000,000 bytes
  are not a gibibyte.  A helper that divides by 1,000,000,000 passes it at every rate.
\<close>

lemma shared_formula_fails_helper_test:
  assumes "1 / 2 \<le> rate"
  shows "\<not> test_data_cost_wak (\<lambda>b. py_round (data_cost_zar_expr b * rate)) rate"
proof -
  have "data_cost_zar_expr 1000000000 \<le> 46"
    by (simp add: data_cost_zar_expr_def DATA_COST_PER_GB_def)
  then have "data_cost_zar_expr 1000000000 * rate \<le> 46 * rate"
    using assms by (intro mult_right_mono) simp_all
  then have gap: "data_cost_zar_expr 1000000000 * rate + 3 / 2 \<le> 49 * rate"
    using assms by linarith
  have near: "\<bar>of_int (py_round (data_cost_zar_expr 1000000000 * rate))
        - data_cost_zar_expr 1000000000 * rate\<bar> \<le> 1 / 2"
    "\<bar>of_int (py_round (49 * rate)) - 49 * rate\<bar> \<le> 1 / 2"
    by (rule py_round_nearest)+
  have "py_round (data_cost_zar_expr 1000000000 * rate) \<noteq> py_round (49 * rate)"
  proof
    assume "py_round (data_cost_zar_expr 1000000000 * rate) = py_round (49 * rate)"
    with near gap show False by linarith
  qed
  then show ?thesis by (simp add: test_data_cost_wak_def)
qed

lemma decimal_gigabyte_passes_helper_test:
  "test_data_cost_wak
     (\<lambda>b. py_round (of_int (b * DATA_COST_PER_GB) / 1000000000 * rate)) rate"
  by (simp add: test_data_cost_wak_def DATA_COST_PER_GB_def)


section \<open>Properties of the connection loop\<close>

lemma connect_loop_all_fail:
  "attempt \<le> 10 \<Longrightarrow> (\<And>i. attempt \<le> i \<Longrightarrow> i < 10 \<Longrightarrow> connect i = None) \<Longrightarrow>
   connect_loop connect attempt slept = (Inl CouldNotConnect, 10, slept + 5 * (10 - attempt))"
proof (induction connect attempt slept rule: connect_loop.induct)
  case (1 connect attempt slept)
  show ?case
  proof (cases "attempt < 10")
    case True
    then have none: "connect attempt = None" using 1(3) by simp
    have "connect_loop connect (Suc attempt) (slept + 5)
        = (Inl CouldNotConnect, 10, slept + 5 + 5 * (10 - Suc attempt))"
      using 1(1) [OF True none] True 1(3) by simp
    then show ?thesis using True none
      by (subst connect_loop.simps) simp
  next
    case False
    with 1(2) have "attempt = 10" by simp
    then show ?thesis by (subst connect_loop.simps) simp
  qed
qed

lemma connect_loop_first_success:
  "attempt \<le> k \<Longrightarrow> k < 10 \<Longrightarrow> connect k = Some c \<Longrightarrow>
   (\<And>i. attempt \<le> i \<Longrightarrow> i < k \<Longrightarrow> connect i = None) \<Longrightarrow>
   connect_loop connect attempt slept = (Inr c, Suc k, slept + 5 * (k - attempt))"
proof (induction connect attempt slept rule: connect_loop.induct)
  case (1 connect attempt slept)
  have lt: "attempt < 10" using 1(2,3) by simp
  show ?case
  proof (cases "attempt = k")
    case True
    then show ?thesis using 1(4) lt by (subst connect_loop.simps) simp
  next
    case False
    then have less: "attempt < k" using 1(2) by simp
    then have none: "connect attempt = None" using 1(5) by simp
    have "connect_loop connect (Suc attempt) (slept + 5)
        = (Inr c, Suc k, slept + 5 + 5 * (k - Suc attempt))"
      using 1(1) [OF lt none] less 1(3,4,5) by simp
    then show ?thesis using lt none less
      by (subst connect_loop.simps) (simp add: algebra_simps)
  qed
qed

lemma connect_loop_attempts:
  "attempt \<le> 10 \<Longrightarrow> fst (snd (connect_loop connect attempt slept)) \<le> 10"
proof (induction connect attempt slept rule: connect_loop.induct)
  case (1 connect attempt slept)
  show ?case
    using 1 by (subst connect_loop.simps) (auto split: option.splits)
qed

lemma get_db_connection_all_fail:
  assumes "\<forall>i<10. connect i = None"
  shows "get_db_connection connect = (Inl CouldNotConnect, 10, 50)"
  using connect_loop_all_fail [of 0 connect 0] assms by (simp add: get_db_connection_def)

lemma get_db_connection_first_success:
  assumes "k < 10" "connect k = Some c" "\<forall>i<k. connect i = None"
  shows "get_db_connection connect = (Inr c, Suc k, 5 * k)"
  using connect_loop_first_success [of 0 k connect c 0] assms
  by (simp add: get_db_connection_def)

lemma get_db_connection_raises_iff:
  "(\<exists>e. fst (get_db_connection connect) = Inl e) = (\<forall>i<10. connect i = None)"
proof
  assume raised: "\<exists>e. fst (get_db_connection connect) = Inl e"
  show "\<forall>i<10. connect i = None"
  proof (rule ccontr)
    assume "\<not> (\<forall>i<10. connect i = None)"
    then have ex: "\<exists>i. i < 10 \<and> connect i \<noteq> None" by blast
    define k where "k = (LEAST i. i < 10 \<and> connect i \<noteq> None)"
    have k: "k < 10 \<and> connect k \<noteq> None"
      unfolding k_def using ex by (rule LeastI_ex)
    have least: "\<forall>i<k. connect i = None"
    proof (intro allI impI)
      fix i assume "i < k"
      then have "\<not> (i < 10 \<and> connect i \<noteq> None)"
        unfolding k_def by (rule not_less_Least)
      with \<open>i < k\<close> k show "connect i = None" by simp
    qed
    from k obtain c where "connect k = Some c" by blast
    with k least have "get_db_connection connect = (Inr c, Suc k, 5 * k)"
      by (intro get_db_connection_first_success) simp_all
    with raised show False by simp
  qed
next
  assume "\<forall>i<10. connect i = None"
  then show "\<exists>e. fst (get_db_connection connect) = Inl e"
    by (simp add: get_db_connection_all_fail)
qed

text \<open>
  Claim C9.  \<^verbatim>\<open>get_db_connection\<close> makes at most 10 connection attempts and sleeps 5
  seconds after each failed one.  It returns the connection of the first attempt that
  succeeds (after \<open>k\<close> failures: \<open>k + 1\<close> attempts, \<open>5 * k\<close> seconds), and it raises exactly
  when all 10 attempts fail (10 attempts, 50 seconds).
\<close>

theorem get_db_connection_bounded_retry:
  "((\<forall>i<10. connect i = None) \<longrightarrow>
      get_db_connection connect = (Inl CouldNotConnect, 10, 50))
   \<and> (k < 10 \<and> connect k = Some c \<and> (\<forall>i<k. connect i = None) \<longrightarrow>
      get_db_connection connect = (Inr c, Suc k, 5 * k))
   \<and> ((\<exists>e. fst (get_db_connection connect) = Inl e) = (\<forall>i<10. connect i = None))
   \<and> fst (snd (get_db_connection connect)) \<le> 10"
  using get_db_connection_all_fail [of connect]
    get_db_connection_first_success [of k connect c]
    get_db_connection_raises_iff [of connect]
    connect_loop_attempts [of 0 connect 0]
  by (simp add: get_db_connection_def)

theorem get_db_connection_bounded_retry_witness:
  "(3::nat) < 10 \<and> connect_fourth 3 = Some 7 \<and> connect_fourth 2 = None
   \<and> get_db_connection connect_fourth = (Inr 7, 4, 15)
   \<and> get_db_connection connect_never = (Inl CouldNotConnect, 10, 50)"
  using get_db_connection_bounded_retry [of connect_fourth 3 7]
    get_db_connection_bounded_retry [of connect_never 0 0]
  by (simp add: connect_fourth_def connect_never_def)

section \<open>Properties of process\_crm\_data\_1\<close>

lemma get_db_connection_always_up [simp]: "get_db_connection always_up = (Inr (), 1, 0)"
  by (simp add: get_db_connection_def connect_loop.simps always_up_def)

lemma connected_always_up [simp]: "connected always_up"
  by (simp add: connected_def)

lemma process_crm_data_1_cases:
  assumes "connected (connect_prod env)" "connected (connect_analytics env)"
  shows "process_crm_data_1 env db =
     (if fails env ReadCrm then (Raised OperationalError, db)
      else if crm_query env = [] then (Returned, db)
      else if fails env DropCreate \<or> fails env CommitTable then (Raised OperationalError, db)
      else if fails env InsertRows then
        (Raised OperationalError, db\<lparr>crm_flattened_balance := Some []\<rparr>)
      else
        (case execute_values [] (map (add_cost_fields (now env)) (crm_query env)) of
           (Some e, tbl) \<Rightarrow> (Raised e, db\<lparr>crm_flattened_balance := Some []\<rparr>)
         | (None, tbl) \<Rightarrow>
             if fails env CommitRows then
               (Raised OperationalError, db\<lparr>crm_flattened_balance := Some []\<rparr>)
             else if fails env SelectSample then
               (Raised OperationalError, db\<lparr>crm_flattened_balance := Some tbl\<rparr>)
             else (Returned, db\<lparr>crm_flattened_balance := Some tbl\<rparr>)))"
  using assms
  by (simp add: connected_def process_crm_data_1_def crm_try_block_def Let_def open_connection_def
      set_balance_table_def commit_def close_def rollback_def
      split: prod.splits option.splits)

lemma process_crm_data_1_not_connected:
  "\<not> (connected (connect_prod env) \<and> connected (connect_analytics env)) \<Longrightarrow>
   \<exists>e. process_crm_data_1 env db = (Raised e, db)"
  by (auto simp: connected_def process_crm_data_1_def split: sum.splits)


lemma process_no_rows: 
  assumes "crm_query env = []"
  shows "snd (process_crm_data_1 env db) = db"
proof (cases "connected (connect_prod env) \<and> connected (connect_analytics env)")
  case True
  then show ?thesis using assms by (simp add: process_crm_data_1_cases)
next
  case False
  then obtain e where "process_crm_data_1 env db = (Raised e, db)"
    using process_crm_data_1_not_connected by blast
  then show ?thesis by simp
qed

lemma on_conflict_update_built:
  "row_key (add_cost_fields ts a) = row_key (add_cost_fields ts b) \<Longrightarrow>
   on_conflict_update (add_cost_fields ts a) (add_cost_fields ts b) = add_cost_fields ts b"
  by (simp add: on_conflict_update_def add_cost_fields_def row_key_def)

lemma row_key_on_conflict_update [simp]:
  "row_key (on_conflict_update existing excluded) = row_key existing"
  by (simp add: on_conflict_update_def row_key_def)

lemma insert_rows_built:
  assumes "insert_rows tbl touched page = Inr tbl'"
    and "set tbl \<subseteq> add_cost_fields ts ` S" and "set page \<subseteq> add_cost_fields ts ` S"
  shows "set tbl' \<subseteq> add_cost_fields ts ` S
    \<and> row_key ` set tbl' = row_key ` (set tbl \<union> set page)"
  using assms
proof (induction page arbitrary: tbl touched)
  case Nil
  then show ?case by simp
next
  case (Cons r rs)
  from Cons.prems(1) have dev: "device_id r \<noteq> None" and fresh: "row_key r \<notin> set touched"
    by (auto split: if_splits)
  show ?case
  proof (cases "row_key r \<in> set (map row_key tbl)")
    case True
    let ?tbl = "map (\<lambda>existing. if row_key existing = row_key r
                       then on_conflict_update existing r else existing) tbl"
    from Cons.prems(1) dev fresh True
    have step: "insert_rows ?tbl (row_key r # touched) rs = Inr tbl'" by simp
    have sub: "set ?tbl \<subseteq> add_cost_fields ts ` S"
    proof
      fix x assume "x \<in> set ?tbl"
      then obtain y where y: "y \<in> set tbl"
        and x: "x = (if row_key y = row_key r then on_conflict_update y r else y)" by auto
      from y Cons.prems(2) obtain a where a: "y = add_cost_fields ts a" "a \<in> S" by auto
      from Cons.prems(3) obtain b where b: "r = add_cost_fields ts b" "b \<in> S" by auto
      show "x \<in> add_cost_fields ts ` S"
      proof (cases "row_key y = row_key r")
        case True
        then have "x = r" using x a b on_conflict_update_built [of ts a b] by simp
        then show ?thesis using b by simp
      next
        case False
        then show ?thesis using x a by simp
      qed
    qed
    have "map row_key ?tbl = map row_key tbl"
      by (induction tbl) simp_all
    then have "set (map row_key ?tbl) = set (map row_key tbl)" by simp
    then have keys: "row_key ` set ?tbl = row_key ` set tbl"
      by (simp only: set_map)
    from Cons.IH [OF step sub] Cons.prems(3)
    have "set tbl' \<subseteq> add_cost_fields ts ` S"
      and "row_key ` set tbl' = row_key ` (set ?tbl \<union> set rs)" by auto
    then show ?thesis using keys True by (auto simp: image_Un)
  next
    case False
    from Cons.prems(1) dev fresh False
    have step: "insert_rows (tbl @ [r]) (row_key r # touched) rs = Inr tbl'" by simp
    have sub: "set (tbl @ [r]) \<subseteq> add_cost_fields ts ` S"
      using Cons.prems(2,3) by simp
    from Cons.IH [OF step sub] Cons.prems(3)
    show ?thesis by (auto simp: image_Un)
  qed
qed

lemma execute_pages_built:
  assumes "execute_pages tbl pages = (res, tbl')"
    and "set tbl \<subseteq> add_cost_fields ts ` S"
    and "set (concat pages) \<subseteq> add_cost_fields ts ` S"
  shows "set tbl' \<subseteq> add_cost_fields ts ` S
    \<and> (res = None \<longrightarrow> row_key ` set tbl' = row_key ` (set tbl \<union> set (concat pages)))"
  using assms
proof (induction pages arbitrary: tbl)
  case Nil
  then show ?case by simp
next
  case (Cons page rest)
  show ?case
  proof (cases "insert_rows tbl [] page")
    case (Inl e)
    with Cons.prems show ?thesis by auto
  next
    case (Inr tbl1)
    with Cons.prems(1) have step: "execute_pages tbl1 rest = (res, tbl')" by simp
    from insert_rows_built [OF Inr Cons.prems(2)] Cons.prems(3)
    have one: "set tbl1 \<subseteq> add_cost_fields ts ` S"
      "row_key ` set tbl1 = row_key ` (set tbl \<union> set page)" by auto
    from Cons.IH [OF step one(1)] Cons.prems(3)
    have "set tbl' \<subseteq> add_cost_fields ts ` S"
      "res = None \<longrightarrow> row_key ` set tbl' = row_key ` (set tbl1 \<union> set (concat rest))"
      by auto
    then show ?thesis using one(2) by (auto simp: image_Un)
  qed
qed

lemma concat_paginate: "concat (paginate xs) = xs"
proof (induction xs rule: paginate.induct)
  case (1 xs)
  show ?case
  proof (cases "xs = []")
    case True
    then show ?thesis by (subst paginate.simps) simp
  next
    case False
    with 1 have "concat (paginate (drop 100 xs)) = drop 100 xs" by simp
    with False show ?thesis by (subst paginate.simps) simp
  qed
qed

lemma execute_values_built:
  assumes "execute_values [] (map (add_cost_fields ts) src) = (res, tbl)"
  shows "set tbl \<subseteq> add_cost_fields ts ` set src
    \<and> (res = None \<longrightarrow> row_key ` set tbl = row_key ` add_cost_fields ts ` set src)"
  using execute_pages_built [of "[]" "paginate (map (add_cost_fields ts) src)" res tbl ts "set src"]
    assms
  by (simp add: execute_values_def concat_paginate)


text \<open>
  Neither pass writes the watermark table or any table but the profile; a pass that
  raises leaves the profile as it was, or recreated and empty, or (when only the final
  sample query failed) fully rebuilt.
\<close>

lemma process_crm_data_1_frame:
  "processing_state (snd (process_crm_data_1 env db)) = processing_state db
   \<and> cdr_data (snd (process_crm_data_1 env db)) = cdr_data db
   \<and> cdr_voice (snd (process_crm_data_1 env db)) = cdr_voice db
   \<and> cdr_tower_sessions (snd (process_crm_data_1 env db)) = cdr_tower_sessions db"
proof (cases "connected (connect_prod env) \<and> connected (connect_analytics env)")
  case True
  then show ?thesis
    by (auto simp: process_crm_data_1_cases split: if_splits option.splits prod.splits)
next
  case False
  with process_crm_data_1_not_connected [of env db] show ?thesis by auto
qed

lemma process_crm_data_1_raised:
  assumes "process_crm_data_1 env db = (Raised e, db')"
  shows "db' = db \<or> db' = db\<lparr>crm_flattened_balance := Some []\<rparr>
     \<or> (fails env SelectSample \<and> e = OperationalError
         \<and> db' = db\<lparr>crm_flattened_balance :=
               Some (snd (execute_values [] (map (add_cost_fields (now env)) (crm_query env))))\<rparr>)"
proof (cases "connected (connect_prod env) \<and> connected (connect_analytics env)")
  case True
  with assms show ?thesis
    by (auto simp: process_crm_data_1_cases split: if_splits option.splits prod.splits)
next
  case False
  with assms process_crm_data_1_not_connected [of env db] show ?thesis by auto
qed

lemma example_run_john:
  "process_crm_data_1 (env_of [john] ts) db =
     (Returned, db\<lparr>crm_flattened_balance := Some [add_cost_fields ts john]\<rparr>)"
  by (simp add: process_crm_data_1_cases env_of_def no_faults_def execute_values_def
      paginate.simps row_key_def add_cost_fields_def john_def)

text \<open>
  Claim C10.  When the production query returns no row, \<^verbatim>\<open>process_crm_data_1\<close> leaves
  the analytics database exactly as it was, whatever else happens; when both
  connections are made and the query does not raise, it returns normally, before the
  drop-and-rebuild step.
\<close>

theorem no_crm_rows_leaves_database:
  "crm_query env = [] \<Longrightarrow>
     snd (process_crm_data_1 env db) = db
     \<and> (connected (connect_prod env) \<and> connected (connect_analytics env)
          \<and> \<not> fails env ReadCrm \<longrightarrow> process_crm_data_1 env db = (Returned, db))"
  using process_no_rows [of env db] process_crm_data_1_cases [of env db] by simp

text \<open>
  Witness of C10: a pass over an empty query result returns and keeps John's row.
\<close>

theorem no_crm_rows_leaves_database_witness:
  "crm_query (env_of [] 8) = []
   \<and> process_crm_data_1 (env_of [] 8) john_db = (Returned, john_db)
   \<and> crm_flattened_balance john_db = Some [add_cost_fields 7 john]"
  using no_crm_rows_leaves_database [of "env_of [] 8" john_db]
  by (simp add: env_of_def no_faults_def john_db_def)

text \<open>
  Claim C8, as stated, fails: a pass whose query returns no row does not destroy the
  rows present before it.  The profile holds John's row before the pass and after it.
\<close>

theorem empty_pass_keeps_rows:
  "crm_query (env_of [] 8) = []
   \<and> crm_flattened_balance john_db = Some [add_cost_fields 7 john]
   \<and> crm_flattened_balance (snd (process_crm_data_1 (env_of [] 8) john_db))
       = Some [add_cost_fields 7 john]"
  by (simp add: process_no_rows env_of_def john_db_def)

text \<open>
  Claim C8, amended.  On every pass of \<^verbatim>\<open>process_crm_data_1\<close> whose query returns at
  least one row and whose drop-and-recreate is committed, the profile table afterwards
  exists, each of its rows is built from a row of this pass's query result, it does not
  depend on what the database held before, and after a normal return every key of the
  query result is in it.  The tower sessions table after its pass holds exactly the
  sessions of that pass's events.
\<close>

theorem flattened_profile_rebuilt:
  assumes "connected (connect_prod env)" "connected (connect_analytics env)"
    and "crm_query env \<noteq> []"
    and "\<not> fails env ReadCrm" "\<not> fails env DropCreate" "\<not> fails env CommitTable"
  shows "(\<exists>rows. crm_flattened_balance (snd (process_crm_data_1 env db)) = Some rows
            \<and> set rows \<subseteq> add_cost_fields (now env) ` set (crm_query env)
            \<and> (fst (process_crm_data_1 env db) = Returned \<longrightarrow>
                 row_key ` set rows = row_key ` add_cost_fields (now env) ` set (crm_query env)))
     \<and> crm_flattened_balance (snd (process_crm_data_1 env db))
         = crm_flattened_balance (snd (process_crm_data_1 env db'))
     \<and> cdr_tower_sessions (process_cdr_data_2 gap events db) = subscriber_sessions gap events"
proof -
  obtain res tbl where ev:
    "execute_values [] (map (add_cost_fields (now env)) (crm_query env)) = (res, tbl)"
    by (cases "execute_values [] (map (add_cost_fields (now env)) (crm_query env))")
  note built = execute_values_built [OF ev]
  have run: "\<And>d. process_crm_data_1 env d =
      (if fails env InsertRows then (Raised OperationalError, d\<lparr>crm_flattened_balance := Some []\<rparr>)
       else case res of
          Some e \<Rightarrow> (Raised e, d\<lparr>crm_flattened_balance := Some []\<rparr>)
        | None \<Rightarrow>
            if fails env CommitRows then (Raised OperationalError, d\<lparr>crm_flattened_balance := Some []\<rparr>)
            else if fails env SelectSample then (Raised OperationalError, d\<lparr>crm_flattened_balance := Some tbl\<rparr>)
            else (Returned, d\<lparr>crm_flattened_balance := Some tbl\<rparr>))"
    using assms ev by (simp add: process_crm_data_1_cases split: option.splits)
  have first: "\<exists>rows. crm_flattened_balance (snd (process_crm_data_1 env db)) = Some rows
            \<and> set rows \<subseteq> add_cost_fields (now env) ` set (crm_query env)
            \<and> (fst (process_crm_data_1 env db) = Returned \<longrightarrow>
                 row_key ` set rows = row_key ` add_cost_fields (now env) ` set (crm_query env))"
    using built by (auto simp: run split: option.splits)
  have second: "crm_flattened_balance (snd (process_crm_data_1 env db))
         = crm_flattened_balance (snd (process_crm_data_1 env db'))"
    by (simp add: run split: option.splits)
  have third: "cdr_tower_sessions (process_cdr_data_2 gap events db) = subscriber_sessions gap events"
    by (simp add: process_cdr_data_2_def)
  from first second third show ?thesis by blast
qed

text \<open>
  Witness of C8 amended: a pass over John's account gives the same table from a
  database that held a row and from one without the table.
\<close>

theorem flattened_profile_rebuilt_witness:
  "connected (connect_prod (env_of [john] 9)) \<and> connected (connect_analytics (env_of [john] 9))
   \<and> crm_query (env_of [john] 9) \<noteq> []
   \<and> fails (env_of [john] 9) ReadCrm = False
   \<and> fails (env_of [john] 9) DropCreate = False
   \<and> fails (env_of [john] 9) CommitTable = False
   \<and> crm_flattened_balance (snd (process_crm_data_1 (env_of [john] 9) john_db))
       = crm_flattened_balance (snd (process_crm_data_1 (env_of [john] 9) empty_db))
   \<and> crm_flattened_balance (snd (process_crm_data_1 (env_of [john] 9) john_db))
       = Some [add_cost_fields 9 john]"
  using flattened_profile_rebuilt [of "env_of [john] 9" john_db empty_db 120 "[]"]
  by (simp add: example_run_john) (simp add: env_of_def no_faults_def)

text \<open>
  Claim C3 at a failing input.  The profile holds John's row; the query returns Mary's
  account, which has no device.  The drop-and-recreate is committed, the insert raises
  on the NULL \<^verbatim>\<open>device_id\<close>, the rollback undoes nothing that was committed: the pass
  raises and leaves the table empty, not as it was.
\<close>

theorem insert_failure_leaves_empty_table:
  "crm_flattened_balance john_db = Some [add_cost_fields 7 john]
   \<and> process_crm_data_1 (env_of [mary] 8) john_db
       = (Raised NotNullViolation, john_db\<lparr>crm_flattened_balance := Some []\<rparr>)"
  by (simp add: process_crm_data_1_cases env_of_def no_faults_def execute_values_def
      paginate.simps add_cost_fields_def mary_def john_db_def)

section \<open>Properties of update\_crm\_balances\_from\_cdr\<close>

lemma update_crm_balances_from_cdr_cases:
  assumes "connected (connect_analytics env)"
  shows "update_crm_balances_from_cdr env db =
     (if fails env UpdateUsage then (Raised OperationalError, db)
      else
        (case crm_flattened_balance db of
           None \<Rightarrow> (Raised UndefinedTable, db)
         | Some tbl \<Rightarrow>
             (case usage_rows db of
                Inl e \<Rightarrow> (Raised e, db)
              | Inr js \<Rightarrow>
                  (case update_usage js tbl of
                     Inl e \<Rightarrow> (Raised e, db)
                   | Inr tbl1 \<Rightarrow>
                       if fails env UpdateTotals then (Raised OperationalError, db)
                       else
                         (case update_totals tbl1 of
                            Inl e \<Rightarrow> (Raised e, db)
                          | Inr tbl2 \<Rightarrow>
                              if fails env CommitBalances then (Raised OperationalError, db)
                              else (Returned, db\<lparr>crm_flattened_balance := Some tbl2\<rparr>))))))"
  using assms
  by (simp add: connected_def update_crm_balances_from_cdr_def balances_try_block_def Let_def
      open_connection_def set_balance_table_def commit_def close_def rollback_def
      split: prod.splits option.splits sum.splits)

lemma update_not_connected:
  "\<not> connected (connect_analytics env) \<Longrightarrow>
   \<exists>e. update_crm_balances_from_cdr env db = (Raised e, db)"
  by (auto simp: connected_def update_crm_balances_from_cdr_def split: sum.splits)


lemma mapM_Inr_nth:
  "mapM f xs = Inr ys \<Longrightarrow>
   length ys = length xs \<and> (\<forall>i<length xs. f (xs ! i) = Inr (ys ! i))"
proof (induction xs arbitrary: ys)
  case Nil
  then show ?case by simp
next
  case (Cons x xs)
  from Cons.prems obtain y ys' where y: "f x = Inr y" and ys': "mapM f xs = Inr ys'"
    and ys: "ys = y # ys'"
    by (auto split: sum.splits)
  from Cons.IH [OF ys'] have "length ys' = length xs"
    and "\<forall>i<length xs. f (xs ! i) = Inr (ys' ! i)" by simp_all
  then show ?case using y ys by (auto simp: nth_Cons split: nat.splits)
qed

lemma mapM_fixed:
  "(\<And>x. x \<in> set xs \<Longrightarrow> f x = Inr x) \<Longrightarrow> mapM f xs = Inr xs"
  by (induction xs) simp_all

lemma dec_val_add [simp]: "dec_val (dec_add a b) = dec_val a + dec_val b"
  by (cases a; cases b) (simp add: add_divide_distrib)

lemma dec_val_neg [simp]: "dec_val (dec_neg a) = - dec_val a"
  by (cases a) simp

lemma store_10_2_Inr: "store_10_2 d = Inr d' \<Longrightarrow> d' = d"
  by (simp add: store_10_2_def split: if_splits)

lemma set_usage_Inr:
  assumes "set_usage j r = Inr r'"
  shows "\<exists>b dc s vc.
      r' = r\<lparr>total_data_bytes := b, data_cost_zar := dc,
              total_call_seconds := s, voice_cost_zar := vc\<rparr>
      \<and> (\<forall>q. set_usage j q = Inr (q\<lparr>total_data_bytes := b, data_cost_zar := dc,
              total_call_seconds := s, voice_cost_zar := vc\<rparr>))"
proof -
  let ?tb = "coalesce0 (fst (snd j))" and ?ts = "coalesce0 (snd (snd j))"
  from assms have big: "in_bigint ?tb"
    by (simp add: set_usage_def Let_def split: if_splits)
  from assms big obtain dc where dc: "to_decimal_10_2 (data_cost_zar_expr ?tb) = Inr dc"
    by (cases "to_decimal_10_2 (data_cost_zar_expr ?tb)") (simp_all add: set_usage_def Let_def)
  from assms big dc have int: "in_integer ?ts"
    by (simp add: set_usage_def Let_def split: if_splits)
  from assms big dc int obtain vc where vc: "to_decimal_10_2 (voice_cost_zar_expr ?ts) = Inr vc"
    by (cases "to_decimal_10_2 (voice_cost_zar_expr ?ts)") (simp_all add: set_usage_def Let_def)
  have "\<And>q. set_usage j q = Inr (q\<lparr>total_data_bytes := ?tb, data_cost_zar := dc,
              total_call_seconds := ?ts, voice_cost_zar := vc\<rparr>)"
    using big dc int vc by (simp add: set_usage_def Let_def)
  then show ?thesis using assms by (metis sum.inject(2))
qed

lemma set_usage_keeps:
  assumes "set_usage j r = Inr r'"
  shows "msisdn r' = msisdn r \<and> total_cost_zar r' = total_cost_zar r
   \<and> running_balance_zar r' = running_balance_zar r"
proof -
  from set_usage_Inr [OF assms] obtain b dc s vc where
    "r' = r\<lparr>total_data_bytes := b, data_cost_zar := dc,
              total_call_seconds := s, voice_cost_zar := vc\<rparr>" by blast
  then show ?thesis by simp
qed

lemma set_usage_again:
  assumes "set_usage j r = Inr r'"
  shows "set_usage j (r'\<lparr>total_cost_zar := a, running_balance_zar := b\<rparr>)
     = Inr (r'\<lparr>total_cost_zar := a, running_balance_zar := b\<rparr>)"
proof -
  from set_usage_Inr [OF assms] obtain tb dc s vc where
    r': "r' = r\<lparr>total_data_bytes := tb, data_cost_zar := dc,
              total_call_seconds := s, voice_cost_zar := vc\<rparr>"
    and all: "\<And>q. set_usage j q = Inr (q\<lparr>total_data_bytes := tb, data_cost_zar := dc,
              total_call_seconds := s, voice_cost_zar := vc\<rparr>)" by blast
  show ?thesis by (simp add: all r')
qed

lemma set_totals_Inr:
  assumes "set_totals r = Inr r'"
  shows "(has_usage r \<and>
          r' = r\<lparr>total_cost_zar := dec_add (data_cost_zar r) (voice_cost_zar r),
                  running_balance_zar := dec_neg (dec_add (data_cost_zar r) (voice_cost_zar r))\<rparr>
          \<and> fits_10_2 (unscaled (dec_add (data_cost_zar r) (voice_cost_zar r)))
          \<and> fits_10_2 (unscaled (dec_neg (dec_add (data_cost_zar r) (voice_cost_zar r)))))
         \<or> (\<not> has_usage r \<and> r' = r)"
proof (cases "has_usage r")
  case False
  with assms show ?thesis by (simp add: set_totals_def has_usage_def)
next
  case True
  let ?t = "dec_add (data_cost_zar r) (voice_cost_zar r)"
  from assms True have 1: "fits_10_2 (unscaled ?t)"
    by (simp add: set_totals_def has_usage_def store_10_2_def split: if_splits)
  from assms True 1 have 2: "fits_10_2 (unscaled (dec_neg ?t))"
    by (simp add: set_totals_def has_usage_def store_10_2_def split: if_splits)
  from assms True 1 2 have "r' = r\<lparr>total_cost_zar := ?t, running_balance_zar := dec_neg ?t\<rparr>"
    by (simp add: set_totals_def has_usage_def store_10_2_def)
  with True 1 2 show ?thesis by simp
qed

lemma set_totals_shape:
  assumes "set_totals r = Inr r'"
  shows "r' = r\<lparr>total_cost_zar := total_cost_zar r', running_balance_zar := running_balance_zar r'\<rparr>
   \<and> has_usage r' = has_usage r"
  using set_totals_Inr [OF assms] by (auto simp: has_usage_def)

lemma set_totals_balanced:
  assumes "set_totals r = Inr r'"
  shows "if has_usage r' then balanced r' else r' = r"
  using set_totals_Inr [OF assms] by (auto simp: has_usage_def balanced_def)

lemma set_totals_again:
  assumes "set_totals r = Inr r'"
  shows "set_totals r' = Inr r'"
  using set_totals_Inr [OF assms]
  by (auto simp: set_totals_def has_usage_def store_10_2_def)


lemma usage_rows_table [simp]:
  "usage_rows (db\<lparr>crm_flattened_balance := t\<rparr>) = usage_rows db"
  by (simp add: usage_rows_def split: sum.splits)

lemma update_row_again:
  assumes u: "(case find (\<lambda>j. fst j = Some (msisdn r)) js of
                 None \<Rightarrow> Inr r | Some j \<Rightarrow> set_usage j r) = Inr r1"
    and t: "set_totals r1 = Inr r2"
  shows "(case find (\<lambda>j. fst j = Some (msisdn r2)) js of
                 None \<Rightarrow> Inr r2 | Some j \<Rightarrow> set_usage j r2) = Inr r2
     \<and> set_totals r2 = Inr r2
     \<and> total_cost_zar r1 = total_cost_zar r \<and> running_balance_zar r1 = running_balance_zar r"
proof -
  from set_totals_shape [OF t] have r2: "r2 = r1\<lparr>total_cost_zar := total_cost_zar r2,
      running_balance_zar := running_balance_zar r2\<rparr>" by simp
  have m2: "msisdn r2 = msisdn r1" by (subst r2) simp
  show ?thesis
  proof (cases "find (\<lambda>j. fst j = Some (msisdn r)) js")
    case None
    with u have "r1 = r" by simp
    with None m2 have "find (\<lambda>j. fst j = Some (msisdn r2)) js = None" by simp
    then show ?thesis using set_totals_again [OF t] \<open>r1 = r\<close> by simp
  next
    case (Some j)
    with u have su: "set_usage j r = Inr r1" by simp
    from set_usage_keeps [OF su] have keep: "msisdn r1 = msisdn r"
      "total_cost_zar r1 = total_cost_zar r" "running_balance_zar r1 = running_balance_zar r"
      by simp_all
    from m2 keep Some have f: "find (\<lambda>j. fst j = Some (msisdn r2)) js = Some j" by simp
    have "set_usage j (r1\<lparr>total_cost_zar := total_cost_zar r2,
        running_balance_zar := running_balance_zar r2\<rparr>)
      = Inr (r1\<lparr>total_cost_zar := total_cost_zar r2,
        running_balance_zar := running_balance_zar r2\<rparr>)"
      by (rule set_usage_again [OF su])
    then have "set_usage j r2 = Inr r2" by (simp only: r2 [symmetric])
    with f keep set_totals_again [OF t] show ?thesis by simp
  qed
qed


lemma update_tables_again:
  assumes u: "update_usage js tbl = Inr t1" and t: "update_totals t1 = Inr t2"
  shows "update_usage js t2 = Inr t2 \<and> update_totals t2 = Inr t2"
proof -
  let ?u = "\<lambda>r. case find (\<lambda>j. fst j = Some (msisdn r)) js of
                 None \<Rightarrow> Inr r | Some j \<Rightarrow> set_usage j r"
  from mapM_Inr_nth [OF u [unfolded update_usage_def]]
  have lu: "length t1 = length tbl" and nu: "\<forall>i<length tbl. ?u (tbl ! i) = Inr (t1 ! i)"
    by simp_all
  from mapM_Inr_nth [OF t [unfolded update_totals_def]]
  have lt: "length t2 = length t1" and nt: "\<forall>i<length t1. set_totals (t1 ! i) = Inr (t2 ! i)"
    by simp_all
  have fixed: "?u x = Inr x \<and> set_totals x = Inr x" if "x \<in> set t2" for x
  proof -
    from that obtain i where i: "i < length t2" "x = t2 ! i" by (auto simp: in_set_conv_nth)
    with lu lt nu nt have "?u (tbl ! i) = Inr (t1 ! i)" "set_totals (t1 ! i) = Inr (t2 ! i)"
      by simp_all
    from update_row_again [OF this] show ?thesis unfolding i(2) by simp
  qed
  have "mapM ?u t2 = Inr t2" by (rule mapM_fixed) (simp add: fixed)
  moreover have "mapM set_totals t2 = Inr t2" by (rule mapM_fixed) (simp add: fixed)
  ultimately show ?thesis by (simp add: update_usage_def update_totals_def)
qed

lemma update_returned:
  assumes "update_crm_balances_from_cdr env db = (Returned, db')"
  shows "connected (connect_analytics env) \<and> \<not> fails env UpdateUsage
     \<and> \<not> fails env UpdateTotals \<and> \<not> fails env CommitBalances
     \<and> (\<exists>tbl js t1 t2. crm_flattened_balance db = Some tbl \<and> usage_rows db = Inr js
          \<and> update_usage js tbl = Inr t1 \<and> update_totals t1 = Inr t2
          \<and> db' = db\<lparr>crm_flattened_balance := Some t2\<rparr>)"
proof -
  have c: "connected (connect_analytics env)"
    using assms update_not_connected [of env db] by auto
  show ?thesis
    using assms c unfolding update_crm_balances_from_cdr_cases [OF c]
    by (auto split: if_splits option.splits sum.splits)
qed

lemma balance_update_idempotent:
  assumes "update_crm_balances_from_cdr env db = (Returned, db')"
  shows "update_crm_balances_from_cdr env db' = (Returned, db')"
proof -
  from update_returned [OF assms] obtain tbl js t1 t2 where
    c: "connected (connect_analytics env)" and f: "\<not> fails env UpdateUsage"
      "\<not> fails env UpdateTotals" "\<not> fails env CommitBalances"
    and tbl: "crm_flattened_balance db = Some tbl" and js: "usage_rows db = Inr js"
    and u: "update_usage js tbl = Inr t1" and t: "update_totals t1 = Inr t2"
    and db': "db' = db\<lparr>crm_flattened_balance := Some t2\<rparr>" by blast
  from update_tables_again [OF u t] have "update_usage js t2 = Inr t2" "update_totals t2 = Inr t2"
    by simp_all
  then show ?thesis
    using f js by (simp add: update_crm_balances_from_cdr_cases [OF c] db')
qed

lemma unbilled_add_cost_fields [simp]: "unbilled (add_cost_fields ts s)"
  by (simp add: unbilled_def add_cost_fields_def)

lemma sql_cast_Inr: "sql_cast P v = Inr w \<Longrightarrow> w = v"
  by (auto simp: sql_cast_def split: option.splits if_splits)

lemma row_bytes_nonneg:
  assumes "row_bytes d = Inr b" "nonneg_option (up_bytes d)" "nonneg_option (down_bytes d)"
  shows "nonneg_option b"
proof -
  from assms(1) obtain u w where u: "sql_cast in_bigint (up_bytes d) = Inr u"
    and w: "sql_cast in_bigint (down_bytes d) = Inr w"
    by (auto simp: row_bytes_def split: sum.splits)
  from sql_cast_Inr [OF u] sql_cast_Inr [OF w] assms(1) u w
  have "b = (case (up_bytes d, down_bytes d) of (Some x, Some y) \<Rightarrow> Some (x + y) | _ \<Rightarrow> None)"
    by (auto simp: row_bytes_def split: option.splits if_splits)
  with assms(2,3) show ?thesis
    by (auto simp: nonneg_option_def coalesce0_def split: option.splits)
qed

lemma sql_sum_nonneg:
  assumes "\<forall>v\<in>set vs. nonneg_option v"
  shows "nonneg_option (sql_sum vs)"
proof -
  have "\<And>x. x \<in> set (List.map_filter (\<lambda>v. v) vs) \<Longrightarrow> 0 \<le> x"
    using assms by (auto simp: List.map_filter_def nonneg_option_def coalesce0_def)
  then have "0 \<le> sum_list (List.map_filter (\<lambda>v. v) vs)" by (rule sum_list_nonneg)
  then show ?thesis by (simp add: sql_sum_def nonneg_option_def coalesce0_def)
qed

lemma group_sum_nonneg:
  assumes "\<forall>v\<in>set vs. nonneg_option v"
  shows "nonneg_option (sql_sum (map snd (filter P (zip ks vs))))"
proof (rule sql_sum_nonneg, rule ballI)
  fix v assume "v \<in> set (map snd (filter P (zip ks vs)))"
  then have "v \<in> set vs" by (auto dest: set_zip_rightD)
  with assms show "nonneg_option v" by simp
qed

lemma cdr_summary_nonneg:
  assumes "cdr_summary rows = Inr cs"
    and "list_all (\<lambda>d. nonneg_option (up_bytes d) \<and> nonneg_option (down_bytes d)) rows"
  shows "\<forall>c\<in>set cs. nonneg_option (snd c)"
proof -
  from assms(1) obtain bytes where m: "mapM row_bytes rows = Inr bytes"
    and cs: "cs = map (\<lambda>m. (m, sql_sum (map snd (filter (\<lambda>p. fst p = m)
                 (zip (map data_msisdn rows) bytes))))) (remdups (map data_msisdn rows))"
    by (auto simp: cdr_summary_def split: sum.splits)
  from mapM_Inr_nth [OF m] have len: "length bytes = length rows"
    and nth: "\<forall>i<length rows. row_bytes (rows ! i) = Inr (bytes ! i)" by simp_all
  have "\<forall>b\<in>set bytes. nonneg_option b"
  proof
    fix b assume "b \<in> set bytes"
    then obtain i where i: "i < length bytes" "b = bytes ! i" by (auto simp: in_set_conv_nth)
    with len nth have rb: "row_bytes (rows ! i) = Inr b" by simp
    from i len assms(2) have "nonneg_option (up_bytes (rows ! i))"
      "nonneg_option (down_bytes (rows ! i))" by (simp_all add: list_all_length)
    with rb show "nonneg_option b" by (rule row_bytes_nonneg)
  qed
  then show ?thesis by (auto simp: cs intro: group_sum_nonneg)
qed

lemma voice_summary_nonneg:
  assumes "voice_summary rows = Inr vs"
    and "list_all (\<lambda>v. nonneg_option (call_duration_sec v)) rows"
  shows "\<forall>v\<in>set vs. nonneg_option (snd v)"
proof -
  let ?g = "\<lambda>secs m. case sql_cast in_bigint
                   (sql_sum (map snd (filter (\<lambda>p. fst p = m) (zip (map voice_msisdn rows) secs)))) of
                      Inl e \<Rightarrow> Inl e
                    | Inr s \<Rightarrow> Inr (m, s)"
  from assms(1) obtain secs where
    m: "mapM (\<lambda>v. sql_cast in_integer (call_duration_sec v)) rows = Inr secs"
    and vs: "mapM (?g secs) (remdups (map voice_msisdn rows)) = Inr vs"
    by (auto simp: voice_summary_def split: sum.splits)
  from mapM_Inr_nth [OF m] have len: "length secs = length rows"
    and nth: "\<forall>i<length rows. sql_cast in_integer (call_duration_sec (rows ! i)) = Inr (secs ! i)"
    by simp_all
  have secs: "\<forall>s\<in>set secs. nonneg_option s"
  proof
    fix s assume "s \<in> set secs"
    then obtain i where i: "i < length secs" "s = secs ! i" by (auto simp: in_set_conv_nth)
    with len nth have "sql_cast in_integer (call_duration_sec (rows ! i)) = Inr s" by simp
    then have "s = call_duration_sec (rows ! i)" by (rule sql_cast_Inr)
    moreover from i len assms(2) have "nonneg_option (call_duration_sec (rows ! i))"
      by (simp add: list_all_length)
    ultimately show "nonneg_option s" by simp
  qed
  from mapM_Inr_nth [OF vs]
  have len': "length vs = length (remdups (map voice_msisdn rows))"
    and nth': "\<forall>i<length (remdups (map voice_msisdn rows)).
        ?g secs (remdups (map voice_msisdn rows) ! i) = Inr (vs ! i)" by simp_all
  show ?thesis
  proof
    fix v assume "v \<in> set vs"
    then obtain i where i: "i < length vs" "v = vs ! i" by (auto simp: in_set_conv_nth)
    let ?m = "remdups (map voice_msisdn rows) ! i"
    from i len' nth' have g: "?g secs ?m = Inr v" by simp
    then obtain s where s: "sql_cast in_bigint
        (sql_sum (map snd (filter (\<lambda>p. fst p = ?m) (zip (map voice_msisdn rows) secs)))) = Inr s"
      and v: "v = (?m, s)" by (auto split: sum.splits)
    from sql_cast_Inr [OF s] group_sum_nonneg [OF secs] v show "nonneg_option (snd v)" by simp
  qed
qed

lemma usage_rows_nonneg:
  assumes "usage_rows db = Inr js" and "nonneg_usage db"
  shows "\<forall>j\<in>set js. nonneg_option (fst (snd j)) \<and> nonneg_option (snd (snd j))"
proof -
  from assms(1) obtain cs vs where cs: "cdr_summary (cdr_data db) = Inr cs"
    and vs: "voice_summary (cdr_voice db) = Inr vs" and js: "js = usage_join cs vs"
    by (auto simp: usage_rows_def split: sum.splits)
  from cdr_summary_nonneg [OF cs] assms(2) have c: "\<forall>c\<in>set cs. nonneg_option (snd c)"
    by (simp add: nonneg_usage_def)
  from voice_summary_nonneg [OF vs] assms(2) have v: "\<forall>v\<in>set vs. nonneg_option (snd v)"
    by (simp add: nonneg_usage_def)
  have none: "nonneg_option None" by (simp add: nonneg_option_def coalesce0_def)
  show ?thesis
  proof
    fix j assume "j \<in> set js"
    then obtain c where cin: "c \<in> set cs" and j: "j = (fst c, snd c,
            (case fst c of
               None \<Rightarrow> None
             | Some m \<Rightarrow> (case find (\<lambda>v. fst v = Some m) vs of None \<Rightarrow> None | Some v \<Rightarrow> snd v)))"
      by (auto simp: js usage_join_def)
    have "nonneg_option (snd (snd j))"
    proof (cases "fst c")
      case None
      with j none show ?thesis by simp
    next
      case (Some m)
      show ?thesis
      proof (cases "find (\<lambda>v. fst v = Some m) vs")
        case None
        with j Some none show ?thesis by simp
      next
        case (Some w)
        then have "w \<in> set vs" by (auto simp: find_Some_iff)
        with v j Some \<open>fst c = Some m\<close> show ?thesis by simp
      qed
    qed
    moreover from c cin j have "nonneg_option (fst (snd j))" by simp
    ultimately show "nonneg_option (fst (snd j)) \<and> nonneg_option (snd (snd j))" by simp
  qed
qed

lemma to_decimal_10_2_zero: "to_decimal_10_2 0 = Inr (Decimal2 0)"
  using to_decimal_10_2_hundredths [of 0] by (simp add: fits_10_2_def)

lemma set_usage_values:
  assumes "set_usage j r = Inr r'"
  shows "\<exists>dc vc.
      r' = r\<lparr>total_data_bytes := coalesce0 (fst (snd j)), data_cost_zar := dc,
              total_call_seconds := coalesce0 (snd (snd j)), voice_cost_zar := vc\<rparr>
      \<and> to_decimal_10_2 (data_cost_zar_expr (coalesce0 (fst (snd j)))) = Inr dc
      \<and> to_decimal_10_2 (voice_cost_zar_expr (coalesce0 (snd (snd j)))) = Inr vc"
proof -
  let ?tb = "coalesce0 (fst (snd j))" and ?ts = "coalesce0 (snd (snd j))"
  from assms have big: "in_bigint ?tb"
    by (simp add: set_usage_def Let_def split: if_splits)
  from assms big obtain dc where dc: "to_decimal_10_2 (data_cost_zar_expr ?tb) = Inr dc"
    by (cases "to_decimal_10_2 (data_cost_zar_expr ?tb)") (simp_all add: set_usage_def Let_def)
  from assms big dc have int: "in_integer ?ts"
    by (simp add: set_usage_def Let_def split: if_splits)
  from assms big dc int obtain vc where vc: "to_decimal_10_2 (voice_cost_zar_expr ?ts) = Inr vc"
    by (cases "to_decimal_10_2 (voice_cost_zar_expr ?ts)") (simp_all add: set_usage_def Let_def)
  from assms big dc int vc
  have "r' = r\<lparr>total_data_bytes := ?tb, data_cost_zar := dc,
              total_call_seconds := ?ts, voice_cost_zar := vc\<rparr>"
    by (simp add: set_usage_def Let_def)
  with dc vc show ?thesis by blast
qed

lemma unbilled_row_balanced:
  assumes u: "(case find (\<lambda>j. fst j = Some (msisdn r)) js of
                 None \<Rightarrow> Inr r | Some j \<Rightarrow> set_usage j r) = Inr r1"
    and t: "set_totals r1 = Inr r2"
    and r: "unbilled r"
    and js: "\<forall>j\<in>set js. nonneg_option (fst (snd j)) \<and> nonneg_option (snd (snd j))"
  shows "balanced r2"
proof (cases "has_usage r2")
  case True
  with set_totals_balanced [OF t] show ?thesis by simp
next
  case False
  with set_totals_balanced [OF t] have r2: "r2 = r1" by simp
  show ?thesis
  proof (cases "find (\<lambda>j. fst j = Some (msisdn r)) js")
    case None
    with u have "r1 = r" by simp
    with r2 r show ?thesis by (simp add: balanced_def unbilled_def)
  next
    case (Some j)
    then have "j \<in> set js" by (auto simp: find_Some_iff)
    with js have nn: "0 \<le> coalesce0 (fst (snd j))" "0 \<le> coalesce0 (snd (snd j))"
      by (simp_all add: nonneg_option_def)
    from Some u have "set_usage j r = Inr r1" by simp
    from set_usage_values [OF this] obtain dc vc where
      r1: "r1 = r\<lparr>total_data_bytes := coalesce0 (fst (snd j)), data_cost_zar := dc,
              total_call_seconds := coalesce0 (snd (snd j)), voice_cost_zar := vc\<rparr>"
      and dc: "to_decimal_10_2 (data_cost_zar_expr (coalesce0 (fst (snd j)))) = Inr dc"
      and vc: "to_decimal_10_2 (voice_cost_zar_expr (coalesce0 (snd (snd j)))) = Inr vc" by blast
    from False r2 r1 nn have z: "coalesce0 (fst (snd j)) = 0" "coalesce0 (snd (snd j)) = 0"
      by (simp_all add: has_usage_def)
    from dc vc z have "dc = Decimal2 0" "vc = Decimal2 0"
      by (simp_all add: data_cost_zar_expr_def voice_cost_zar_expr_def to_decimal_10_2_zero)
    with r1 r2 r show ?thesis by (simp add: balanced_def unbilled_def)
  qed
qed

lemma unbilled_profile_balanced:
  assumes ret: "update_crm_balances_from_cdr env db = (Returned, db')"
    and fresh: "crm_flattened_balance db = Some old" "list_all unbilled old"
    and nn: "nonneg_usage db"
  shows "\<exists>rows. crm_flattened_balance db' = Some rows \<and> list_all balanced rows"
proof -
  from update_returned [OF ret] fresh(1) obtain js t1 t2 where
    js: "usage_rows db = Inr js"
    and u: "update_usage js old = Inr t1" and t: "update_totals t1 = Inr t2"
    and db': "db' = db\<lparr>crm_flattened_balance := Some t2\<rparr>" by auto
  let ?u = "\<lambda>r. case find (\<lambda>j. fst j = Some (msisdn r)) js of
                 None \<Rightarrow> Inr r | Some j \<Rightarrow> set_usage j r"
  from mapM_Inr_nth [OF u [unfolded update_usage_def]]
  have lu: "length t1 = length old" and nu: "\<forall>i<length old. ?u (old ! i) = Inr (t1 ! i)"
    by simp_all
  from mapM_Inr_nth [OF t [unfolded update_totals_def]]
  have lt: "length t2 = length t1" and nt: "\<forall>i<length t1. set_totals (t1 ! i) = Inr (t2 ! i)"
    by simp_all
  note nonneg = usage_rows_nonneg [OF js nn]
  have "balanced (t2 ! i)" if "i < length t2" for i
  proof -
    from that lu lt nu nt have 1: "?u (old ! i) = Inr (t1 ! i)"
      and 2: "set_totals (t1 ! i) = Inr (t2 ! i)" by simp_all
    from that lu lt fresh(2) have 3: "unbilled (old ! i)" by (simp add: list_all_length)
    from unbilled_row_balanced [OF 1 2 3 nonneg] show ?thesis .
  qed
  then show ?thesis by (simp add: db' list_all_length)
qed

text \<open>
  The balance pass commits once, at the end: when it raises, the database is as it was.
\<close>

lemma balance_update_atomic:
  assumes "update_crm_balances_from_cdr env db = (Raised e, db')"
  shows "db' = db"
proof (cases "connected (connect_analytics env)")
  case True
  with assms show ?thesis
    by (auto simp: update_crm_balances_from_cdr_cases split: if_splits option.splits sum.splits)
next
  case False
  with assms update_not_connected [of env db] show ?thesis by auto
qed

lemma balance_update_frame:
  "processing_state (snd (update_crm_balances_from_cdr env db)) = processing_state db
   \<and> cdr_data (snd (update_crm_balances_from_cdr env db)) = cdr_data db
   \<and> cdr_voice (snd (update_crm_balances_from_cdr env db)) = cdr_voice db
   \<and> cdr_tower_sessions (snd (update_crm_balances_from_cdr env db)) = cdr_tower_sessions db"
proof (cases "connected (connect_analytics env)")
  case True
  then show ?thesis
    by (auto simp: update_crm_balances_from_cdr_cases split: if_splits option.splits sum.splits)
next
  case False
  with update_not_connected [of env db] show ?thesis by auto
qed

text \<open>
  Claim C4, as stated, fails.  John's profile row is billed for 1 GiB by a first pass;
  the raw data table then holds a single zero-byte record for his number.  The second
  pass sets his usage and both costs to zero, its second statement skips the row,
  and the row keeps a total cost of 49.00 against costs that sum to zero.
\<close>

theorem stale_total_after_second_pass:
  "update_crm_balances_from_cdr (env_of [] 0)
     ((snd (update_crm_balances_from_cdr (env_of [] 0) (usage_db [gib_of_data] [])))
        \<lparr>cdr_data := [no_data]\<rparr>)
     = (Returned, (usage_db [no_data] [])\<lparr>crm_flattened_balance := Some [stale_john]\<rparr>)
   \<and> \<not> balanced stale_john"
  by code_simp

text \<open>
  Claim C4, amended.  After a balance-update pass that returns, every profile row with
  \<^verbatim>\<open>total_data_bytes > 0\<close> or \<^verbatim>\<open>total_call_seconds > 0\<close> has
  \<^verbatim>\<open>total_cost = data_cost + voice_cost\<close> and \<^verbatim>\<open>running_balance = -total_cost\<close>; every
  other row keeps the total cost and running balance it had before the pass.  Hence
  every row has both when the pass starts from a profile without usage and cost, as
  \<^verbatim>\<open>process_crm_data_1\<close> builds it, and no raw usage measure is negative.
\<close>

theorem balance_invariant_where_usage:
  assumes "update_crm_balances_from_cdr env db = (Returned, db')"
  shows "\<exists>old rows. crm_flattened_balance db = Some old
      \<and> crm_flattened_balance db' = Some rows \<and> length rows = length old
      \<and> (\<forall>i<length rows.
            if has_usage (rows ! i) then balanced (rows ! i)
            else total_cost_zar (rows ! i) = total_cost_zar (old ! i)
               \<and> running_balance_zar (rows ! i) = running_balance_zar (old ! i))
      \<and> (list_all unbilled old \<and> nonneg_usage db \<longrightarrow> list_all balanced rows)"
proof -
  from update_returned [OF assms] obtain tbl js t1 t2 where
    tbl: "crm_flattened_balance db = Some tbl"
    and u: "update_usage js tbl = Inr t1" and t: "update_totals t1 = Inr t2"
    and db': "db' = db\<lparr>crm_flattened_balance := Some t2\<rparr>" by blast
  let ?u = "\<lambda>r. case find (\<lambda>j. fst j = Some (msisdn r)) js of
                 None \<Rightarrow> Inr r | Some j \<Rightarrow> set_usage j r"
  from mapM_Inr_nth [OF u [unfolded update_usage_def]]
  have lu: "length t1 = length tbl" and nu: "\<forall>i<length tbl. ?u (tbl ! i) = Inr (t1 ! i)"
    by simp_all
  from mapM_Inr_nth [OF t [unfolded update_totals_def]]
  have lt: "length t2 = length t1" and nt: "\<forall>i<length t1. set_totals (t1 ! i) = Inr (t2 ! i)"
    by simp_all
  have row: "if has_usage (t2 ! i) then balanced (t2 ! i)
            else total_cost_zar (t2 ! i) = total_cost_zar (tbl ! i)
               \<and> running_balance_zar (t2 ! i) = running_balance_zar (tbl ! i)"
    if "i < length t2" for i
  proof -
    from that lu lt nu nt have 1: "?u (tbl ! i) = Inr (t1 ! i)"
      and 2: "set_totals (t1 ! i) = Inr (t2 ! i)" by simp_all
    from update_row_again [OF 1 2] have keep: "total_cost_zar (t1 ! i) = total_cost_zar (tbl ! i)"
      "running_balance_zar (t1 ! i) = running_balance_zar (tbl ! i)" by simp_all
    from set_totals_balanced [OF 2] keep show ?thesis by (auto split: if_splits)
  qed
  have all: "list_all balanced t2" if "list_all unbilled tbl" "nonneg_usage db"
    using unbilled_profile_balanced [OF assms tbl that] by (simp add: db')
  show ?thesis using tbl db' lu lt row all by simp
qed

text \<open>
  Witness of C4 amended: the pass over 1 GiB and two minutes of John's usage returns,
  from a profile without usage and cost; his row, which has usage, is balanced
  (49.00 + 2.00 = 51.00).
\<close>

theorem balance_invariant_where_usage_witness:
  "update_crm_balances_from_cdr (env_of [] 0) (usage_db [gib_of_data] [two_minutes])
     = (Returned, (usage_db [gib_of_data] [two_minutes])\<lparr>crm_flattened_balance := Some [billed_john]\<rparr>)
   \<and> crm_flattened_balance (usage_db [gib_of_data] [two_minutes]) = Some [add_cost_fields 7 john]
   \<and> list_all unbilled [add_cost_fields 7 john]
   \<and> nonneg_usage (usage_db [gib_of_data] [two_minutes])
   \<and> has_usage billed_john \<and> balanced billed_john"
proof -
  have run: "update_crm_balances_from_cdr (env_of [] 0) (usage_db [gib_of_data] [two_minutes])
     = (Returned, (usage_db [gib_of_data] [two_minutes])\<lparr>crm_flattened_balance := Some [billed_john]\<rparr>)"
    by code_simp
  have usage: "has_usage billed_john" by code_simp
  have before: "crm_flattened_balance (usage_db [gib_of_data] [two_minutes])
      = Some [add_cost_fields 7 john]"
    by (simp add: usage_db_def john_db_def)
  have pre: "nonneg_usage (usage_db [gib_of_data] [two_minutes])" by code_simp
  from balance_invariant_where_usage [OF run] usage have "balanced billed_john" by auto
  with run usage before pre show ?thesis by simp
qed

text \<open>
  Claim C5 at a failing input.  John has two minutes of voice and no data record.  The
  join of the data summary with the voice summary has no row for his number, so the
  pass returns with his profile row untouched: no call seconds, no voice cost.
\<close>

theorem voice_only_subscriber_not_billed:
  "voice_msisdn two_minutes = Some (msisdn john)
   \<and> call_duration_sec two_minutes = Some 120
   \<and> crm_flattened_balance (usage_db [] [two_minutes]) = Some [add_cost_fields 7 john]
   \<and> usage_rows (usage_db [] [two_minutes]) = Inr []
   \<and> update_crm_balances_from_cdr (env_of [] 0) (usage_db [] [two_minutes])
       = (Returned, usage_db [] [two_minutes])
   \<and> total_call_seconds (add_cost_fields 7 john) = 0"
  by code_simp

subsection \<open>The data cost a pass stores\<close>

lemma row_bytes_Inr: "row_bytes d = Inr v \<Longrightarrow> v = record_bytes d"
  by (auto simp: row_bytes_def record_bytes_def sql_cast_def
      split: option.splits if_splits sum.splits)

lemma mapM_row_bytes:
  assumes "mapM row_bytes rows = Inr bytes"
  shows "bytes = map record_bytes rows"
proof (rule nth_equalityI)
  from mapM_Inr_nth [OF assms] have len: "length bytes = length rows"
    and each: "\<forall>i<length rows. row_bytes (rows ! i) = Inr (bytes ! i)" by simp_all
  from len show "length bytes = length (map record_bytes rows)" by simp
  fix i assume "i < length bytes"
  with len each have "row_bytes (rows ! i) = Inr (bytes ! i)" "i < length rows" by simp_all
  then show "bytes ! i = map record_bytes rows ! i" by (simp add: row_bytes_Inr)
qed

lemma group_values:
  "map snd (filter (\<lambda>p. fst p = k) (zip (map f xs) (map g xs)))
     = map g (filter (\<lambda>x. f x = k) xs)"
  by (induction xs) simp_all

lemma find_keyed:
  assumes "\<And>k. fst (h k) = k"
  shows "find (\<lambda>j. fst j = x) (map h ks) = (if x \<in> set ks then Some (h x) else None)"
  using assms by (induction ks) auto

lemma usage_rows_find:
  assumes "usage_rows db = Inr js"
  shows "if data_records db m = [] then find (\<lambda>j. fst j = Some m) js = None
     else (\<exists>j. find (\<lambda>j. fst j = Some m) js = Some j
             \<and> fst (snd j) = sql_sum (map record_bytes (data_records db m)))"
proof -
  from assms obtain cs vs where cs: "cdr_summary (cdr_data db) = Inr cs"
    and js: "js = usage_join cs vs"
    by (auto simp: usage_rows_def split: sum.splits)
  from cs obtain bytes where bytes: "mapM row_bytes (cdr_data db) = Inr bytes"
    and cs': "cs = map (\<lambda>k. (k, sql_sum (map snd (filter (\<lambda>p. fst p = k)
                  (zip (map data_msisdn (cdr_data db)) bytes)))))
                 (remdups (map data_msisdn (cdr_data db)))"
    by (auto simp: cdr_summary_def split: sum.splits)
  note b = mapM_row_bytes [OF bytes]
  define V where "V = (\<lambda>k :: string option. case k of None \<Rightarrow> None
       | Some m \<Rightarrow> (case find (\<lambda>v. fst v = Some m) vs of None \<Rightarrow> None | Some v \<Rightarrow> snd v))"
  define H where "H = (\<lambda>k. (k, sql_sum (map record_bytes (filter (\<lambda>d. data_msisdn d = k) (cdr_data db))),
       V k))"
  have "js = map H (remdups (map data_msisdn (cdr_data db)))"
    by (simp add: js cs' usage_join_def b group_values H_def V_def comp_def)
  moreover have "\<And>k. fst (H k) = k" by (simp add: H_def)
  ultimately have f: "find (\<lambda>j. fst j = Some m) js
      = (if Some m \<in> set (remdups (map data_msisdn (cdr_data db))) then Some (H (Some m)) else None)"
    by (simp only: find_keyed)
  have "(data_records db m = []) = (Some m \<notin> set (remdups (map data_msisdn (cdr_data db))))"
    by (auto simp: data_records_def filter_empty_conv image_iff)
  then show ?thesis using f by (auto simp: H_def data_records_def)
qed

lemma billed_row:
  assumes ret: "update_crm_balances_from_cdr env db = (Returned, db')"
  shows "\<exists>old rows. crm_flattened_balance db = Some old
      \<and> crm_flattened_balance db' = Some rows \<and> length rows = length old
      \<and> (\<forall>i<length rows.
            if data_records db (msisdn (old ! i)) = []
            then total_data_bytes (rows ! i) = total_data_bytes (old ! i)
               \<and> data_cost_zar (rows ! i) = data_cost_zar (old ! i)
            else total_data_bytes (rows ! i) = subscriber_bytes db (msisdn (old ! i))
               \<and> to_decimal_10_2 (data_cost_zar_expr (total_data_bytes (rows ! i)))
                   = Inr (data_cost_zar (rows ! i)))"
proof -
  from update_returned [OF ret] obtain tbl js t1 t2 where
    tbl: "crm_flattened_balance db = Some tbl" and js: "usage_rows db = Inr js"
    and u: "update_usage js tbl = Inr t1" and t: "update_totals t1 = Inr t2"
    and db': "db' = db\<lparr>crm_flattened_balance := Some t2\<rparr>" by blast
  let ?u = "\<lambda>r. case find (\<lambda>j. fst j = Some (msisdn r)) js of
                 None \<Rightarrow> Inr r | Some j \<Rightarrow> set_usage j r"
  from mapM_Inr_nth [OF u [unfolded update_usage_def]]
  have lu: "length t1 = length tbl" and nu: "\<forall>i<length tbl. ?u (tbl ! i) = Inr (t1 ! i)"
    by simp_all
  from mapM_Inr_nth [OF t [unfolded update_totals_def]]
  have lt: "length t2 = length t1" and nt: "\<forall>i<length t1. set_totals (t1 ! i) = Inr (t2 ! i)"
    by simp_all
  have row: "if data_records db (msisdn (tbl ! i)) = []
            then total_data_bytes (t2 ! i) = total_data_bytes (tbl ! i)
               \<and> data_cost_zar (t2 ! i) = data_cost_zar (tbl ! i)
            else total_data_bytes (t2 ! i) = subscriber_bytes db (msisdn (tbl ! i))
               \<and> to_decimal_10_2 (data_cost_zar_expr (total_data_bytes (t2 ! i)))
                   = Inr (data_cost_zar (t2 ! i))"
    if "i < length t2" for i
  proof -
    from that lu lt nu nt have 1: "?u (tbl ! i) = Inr (t1 ! i)"
      and 2: "set_totals (t1 ! i) = Inr (t2 ! i)" by simp_all
    from set_totals_shape [OF 2]
    have "t2 ! i = (t1 ! i)\<lparr>total_cost_zar := total_cost_zar (t2 ! i),
        running_balance_zar := running_balance_zar (t2 ! i)\<rparr>" by simp
    then have "total_data_bytes (t2 ! i) = total_data_bytes ((t1 ! i)\<lparr>total_cost_zar := total_cost_zar (t2 ! i),
        running_balance_zar := running_balance_zar (t2 ! i)\<rparr>)"
      "data_cost_zar (t2 ! i) = data_cost_zar ((t1 ! i)\<lparr>total_cost_zar := total_cost_zar (t2 ! i),
        running_balance_zar := running_balance_zar (t2 ! i)\<rparr>)" by simp_all
    then have keep: "total_data_bytes (t2 ! i) = total_data_bytes (t1 ! i)"
      "data_cost_zar (t2 ! i) = data_cost_zar (t1 ! i)" by simp_all
    show ?thesis
    proof (cases "data_records db (msisdn (tbl ! i)) = []")
      case True
      with usage_rows_find [OF js, of "msisdn (tbl ! i)"]
      have "find (\<lambda>j. fst j = Some (msisdn (tbl ! i))) js = None" by simp
      with 1 have "t1 ! i = tbl ! i" by simp
      with keep True show ?thesis by simp
    next
      case False
      with usage_rows_find [OF js, of "msisdn (tbl ! i)"] obtain j where
        j: "find (\<lambda>j. fst j = Some (msisdn (tbl ! i))) js = Some j"
        and b: "fst (snd j) = sql_sum (map record_bytes (data_records db (msisdn (tbl ! i))))"
        by auto
      from 1 j have "set_usage j (tbl ! i) = Inr (t1 ! i)" by simp
      from set_usage_values [OF this] obtain dc vc where
        r1: "t1 ! i = (tbl ! i)\<lparr>total_data_bytes := coalesce0 (fst (snd j)), data_cost_zar := dc,
              total_call_seconds := coalesce0 (snd (snd j)), voice_cost_zar := vc\<rparr>"
        and dc: "to_decimal_10_2 (data_cost_zar_expr (coalesce0 (fst (snd j)))) = Inr dc" by blast
      from r1 have "total_data_bytes (t1 ! i) = coalesce0 (fst (snd j))"
        "data_cost_zar (t1 ! i) = dc" by simp_all
      with keep dc b False show ?thesis by (simp add: subscriber_bytes_def)
    qed
  qed
  have final: "crm_flattened_balance db' = Some t2" by (simp add: db')
  have len: "length t2 = length tbl" using lu lt by simp
  have all: "\<forall>i<length t2.
            if data_records db (msisdn (tbl ! i)) = []
            then total_data_bytes (t2 ! i) = total_data_bytes (tbl ! i)
               \<and> data_cost_zar (t2 ! i) = data_cost_zar (tbl ! i)
            else total_data_bytes (t2 ! i) = subscriber_bytes db (msisdn (tbl ! i))
               \<and> to_decimal_10_2 (data_cost_zar_expr (total_data_bytes (t2 ! i)))
                   = Inr (data_cost_zar (t2 ! i))"
    by (intro allI impI) (rule row)
  from tbl final len all show ?thesis by blast
qed

text \<open>
  Claim C1, as stated, fails.  The balance pass over one mebibyte of John's data
  returns; his row holds 1,048,576 bytes and a data cost of 0.05, while
  \<open>b / 2^30 * 49\<close> is 49/1024: the column keeps two decimals.  And the formula is not
  the one the test of the streaming helper expects: converted at rate 1 it gives 46
  for the 1,000,000,000 bytes of \<^verbatim>\<open>tests/test_hvs.py\<close>, where the test expects 49.
\<close>

theorem data_cost_not_exact_nor_shared:
  "update_crm_balances_from_cdr (env_of [] 0) (usage_db [mebibyte_of_data] [])
     = (Returned, (usage_db [mebibyte_of_data] [])\<lparr>crm_flattened_balance := Some [mebibyte_john]\<rparr>)
   \<and> total_data_bytes mebibyte_john = 1048576
   \<and> dec_val (data_cost_zar mebibyte_john) = 1 / 20
   \<and> of_int (total_data_bytes mebibyte_john) / 2 ^ 30 * of_int DATA_COST_PER_GB = (49 / 1024 :: rat)
   \<and> dec_val (data_cost_zar mebibyte_john)
       \<noteq> of_int (total_data_bytes mebibyte_john) / 2 ^ 30 * of_int DATA_COST_PER_GB
   \<and> py_round (data_cost_zar_expr 1000000000 * 1) = 46
   \<and> py_round (49 * 1) = 49
   \<and> \<not> test_data_cost_wak (\<lambda>b. py_round (data_cost_zar_expr b * 1)) 1"
  by code_simp

text \<open>
  Claim C1, amended.  After a balance pass that returns, a profile row whose number
  has data records holds their total byte count \<open>b\<close> and, as data cost,
  \<open>b / 2^30 * DATA_COST_PER_GB\<close> with \<open>DATA_COST_PER_GB = 49\<close>, rounded to two decimals: at
  most half a hundredth away from it, equal to it when it is a whole number of
  hundredths, and 49.00 for 1,073,741,824 bytes.  A row whose number has no data
  record keeps its byte count and data cost.
\<close>

theorem data_cost_stored_to_hundredth:
  assumes "update_crm_balances_from_cdr env db = (Returned, db')"
  shows "DATA_COST_PER_GB = 49
     \<and> (\<exists>old rows. crm_flattened_balance db = Some old
          \<and> crm_flattened_balance db' = Some rows \<and> length rows = length old
          \<and> (\<forall>i<length rows.
                if data_records db (msisdn (old ! i)) = []
                then total_data_bytes (rows ! i) = total_data_bytes (old ! i)
                   \<and> data_cost_zar (rows ! i) = data_cost_zar (old ! i)
                else total_data_bytes (rows ! i) = subscriber_bytes db (msisdn (old ! i))
                   \<and> to_decimal_10_2 (of_int (total_data_bytes (rows ! i)) / 2 ^ 30
                         * of_int DATA_COST_PER_GB) = Inr (data_cost_zar (rows ! i))
                   \<and> \<bar>dec_val (data_cost_zar (rows ! i))
                        - of_int (total_data_bytes (rows ! i)) / 2 ^ 30 * of_int DATA_COST_PER_GB\<bar>
                       \<le> 1 / 200
                   \<and> (\<forall>n. of_int (total_data_bytes (rows ! i)) / 2 ^ 30 * of_int DATA_COST_PER_GB
                             = (of_int n / 100 :: rat) \<longrightarrow> data_cost_zar (rows ! i) = Decimal2 n)
                   \<and> (total_data_bytes (rows ! i) = 1073741824 \<longrightarrow>
                        data_cost_zar (rows ! i) = Decimal2 4900
                        \<and> dec_val (data_cost_zar (rows ! i)) = 49)))"
proof -
  from billed_row [OF assms] obtain old rows where
    old: "crm_flattened_balance db = Some old" and rows: "crm_flattened_balance db' = Some rows"
    and len: "length rows = length old"
    and each: "\<And>i. i < length rows \<Longrightarrow>
            if data_records db (msisdn (old ! i)) = []
            then total_data_bytes (rows ! i) = total_data_bytes (old ! i)
               \<and> data_cost_zar (rows ! i) = data_cost_zar (old ! i)
            else total_data_bytes (rows ! i) = subscriber_bytes db (msisdn (old ! i))
               \<and> to_decimal_10_2 (data_cost_zar_expr (total_data_bytes (rows ! i)))
                   = Inr (data_cost_zar (rows ! i))"
    by blast
  have stored: "\<bar>dec_val d - of_int b / 2 ^ 30 * of_int DATA_COST_PER_GB\<bar> \<le> 1 / 200
      \<and> (\<forall>n. of_int b / 2 ^ 30 * of_int DATA_COST_PER_GB = (of_int n / 100 :: rat) \<longrightarrow> d = Decimal2 n)
      \<and> (b = 1073741824 \<longrightarrow> d = Decimal2 4900 \<and> dec_val d = 49)"
    if d: "to_decimal_10_2 (data_cost_zar_expr b) = Inr d" for b d
  proof -
    note f = data_cost_zar_expr_formula [of b, symmetric]
    from to_decimal_10_2_nearest [OF d]
    have 1: "\<bar>dec_val d - of_int b / 2 ^ 30 * of_int DATA_COST_PER_GB\<bar> \<le> 1 / 200"
      by (simp only: f)
    have 2: "d = Decimal2 n"
      if "of_int b / 2 ^ 30 * of_int DATA_COST_PER_GB = (of_int n / 100 :: rat)" for n
      using to_decimal_10_2_exact [OF d, of n] that by (simp only: f)
    have "of_int (1073741824 :: int) / 2 ^ 30 * of_int DATA_COST_PER_GB = (of_int 4900 / 100 :: rat)"
      by (simp add: DATA_COST_PER_GB_def)
    with 2 [of 4900] have 3: "b = 1073741824 \<longrightarrow> d = Decimal2 4900 \<and> dec_val d = 49"
      by auto
    from 1 2 3 show ?thesis by blast
  qed
  have all: "\<forall>i<length rows.
                if data_records db (msisdn (old ! i)) = []
                then total_data_bytes (rows ! i) = total_data_bytes (old ! i)
                   \<and> data_cost_zar (rows ! i) = data_cost_zar (old ! i)
                else total_data_bytes (rows ! i) = subscriber_bytes db (msisdn (old ! i))
                   \<and> to_decimal_10_2 (of_int (total_data_bytes (rows ! i)) / 2 ^ 30
                         * of_int DATA_COST_PER_GB) = Inr (data_cost_zar (rows ! i))
                   \<and> \<bar>dec_val (data_cost_zar (rows ! i))
                        - of_int (total_data_bytes (rows ! i)) / 2 ^ 30 * of_int DATA_COST_PER_GB\<bar>
                       \<le> 1 / 200
                   \<and> (\<forall>n. of_int (total_data_bytes (rows ! i)) / 2 ^ 30 * of_int DATA_COST_PER_GB
                             = (of_int n / 100 :: rat) \<longrightarrow> data_cost_zar (rows ! i) = Decimal2 n)
                   \<and> (total_data_bytes (rows ! i) = 1073741824 \<longrightarrow>
                        data_cost_zar (rows ! i) = Decimal2 4900
                        \<and> dec_val (data_cost_zar (rows ! i)) = 49)"
  proof (intro allI impI)
    fix i assume i: "i < length rows"
    show "if data_records db (msisdn (old ! i)) = []
                then total_data_bytes (rows ! i) = total_data_bytes (old ! i)
                   \<and> data_cost_zar (rows ! i) = data_cost_zar (old ! i)
                else total_data_bytes (rows ! i) = subscriber_bytes db (msisdn (old ! i))
                   \<and> to_decimal_10_2 (of_int (total_data_bytes (rows ! i)) / 2 ^ 30
                         * of_int DATA_COST_PER_GB) = Inr (data_cost_zar (rows ! i))
                   \<and> \<bar>dec_val (data_cost_zar (rows ! i))
                        - of_int (total_data_bytes (rows ! i)) / 2 ^ 30 * of_int DATA_COST_PER_GB\<bar>
                       \<le> 1 / 200
                   \<and> (\<forall>n. of_int (total_data_bytes (rows ! i)) / 2 ^ 30 * of_int DATA_COST_PER_GB
                             = (of_int n / 100 :: rat) \<longrightarrow> data_cost_zar (rows ! i) = Decimal2 n)
                   \<and> (total_data_bytes (rows ! i) = 1073741824 \<longrightarrow>
                        data_cost_zar (rows ! i) = Decimal2 4900
                        \<and> dec_val (data_cost_zar (rows ! i)) = 49)"
    proof (cases "data_records db (msisdn (old ! i)) = []")
      case True
      with each [OF i] show ?thesis by simp
    next
      case False
      from each [OF i]
      have "total_data_bytes (rows ! i) = subscriber_bytes db (msisdn (old ! i))
          \<and> to_decimal_10_2 (data_cost_zar_expr (total_data_bytes (rows ! i)))
                   = Inr (data_cost_zar (rows ! i))"
        using False by (auto split: if_splits)
      then have b: "total_data_bytes (rows ! i) = subscriber_bytes db (msisdn (old ! i))"
        and d: "to_decimal_10_2 (data_cost_zar_expr (total_data_bytes (rows ! i)))
                   = Inr (data_cost_zar (rows ! i))" by blast+
      from d have d': "to_decimal_10_2 (of_int (total_data_bytes (rows ! i)) / 2 ^ 30
                         * of_int DATA_COST_PER_GB) = Inr (data_cost_zar (rows ! i))"
        by (simp only: data_cost_zar_expr_formula)
      from False b d' stored [OF d] show ?thesis by (simp only: if_False) blast
    qed
  qed
  have "DATA_COST_PER_GB = 49" by (simp add: DATA_COST_PER_GB_def)
  with old rows len all show ?thesis by blast
qed

text \<open>
  Witness of C1 amended: the pass over one gibibyte of John's data returns and his
  row holds 1,073,741,824 bytes and a data cost of 49.00.
\<close>

theorem data_cost_stored_to_hundredth_witness:
  "update_crm_balances_from_cdr (env_of [] 0) (usage_db [gib_of_data] [])
     = (Returned, (usage_db [gib_of_data] [])\<lparr>crm_flattened_balance := Some [gibibyte_john]\<rparr>)
   \<and> data_records (usage_db [gib_of_data] []) (msisdn john) = [gib_of_data]
   \<and> subscriber_bytes (usage_db [gib_of_data] []) (msisdn john) = 1073741824
   \<and> total_data_bytes gibibyte_john = 1073741824
   \<and> data_cost_zar gibibyte_john = Decimal2 4900
   \<and> dec_val (data_cost_zar gibibyte_john) = 49"
proof -
  let ?db = "usage_db [gib_of_data] []"
  have run: "update_crm_balances_from_cdr (env_of [] 0) ?db
     = (Returned, ?db\<lparr>crm_flattened_balance := Some [gibibyte_john]\<rparr>)"
    by code_simp
  have before: "crm_flattened_balance ?db = Some [add_cost_fields 7 john]"
    by (simp add: usage_db_def john_db_def)
  have records: "data_records ?db (msisdn john) = [gib_of_data]" by code_simp
  have name: "msisdn (add_cost_fields 7 john) = msisdn john" by (simp add: add_cost_fields_def)
  have bytes: "total_data_bytes gibibyte_john = 1073741824" by (simp add: gibibyte_john_def)
  from data_cost_stored_to_hundredth [OF run] before records name bytes
  have "total_data_bytes gibibyte_john = subscriber_bytes ?db (msisdn john)
      \<and> data_cost_zar gibibyte_john = Decimal2 4900
      \<and> dec_val (data_cost_zar gibibyte_john) = 49"
    by auto
  then show ?thesis using run records bytes by simp
qed

section \<open>Properties of the sessionizer\<close>

lemma scan_events_not_Nil [simp]: "scan_events gap cur es \<noteq> []"
  by (induction es arbitrary: cur) simp_all

lemma scan_events_snoc:
  "scan_events gap cur (es @ [e]) =
     (if continues gap (last (scan_events gap cur es)) e
      then butlast (scan_events gap cur es) @ [extend_session (last (scan_events gap cur es)) e]
      else scan_events gap cur es @ [open_session e])"
  by (induction es arbitrary: cur) simp_all

lemma scan_events_count:
  "sum_list (map interaction_count (scan_events gap cur es)) = interaction_count cur + int (length es)"
  by (induction es arbitrary: cur) (simp_all add: extend_session_def open_session_def)

lemma sessionize_count:
  "sum_list (map interaction_count (sessionize gap es)) = int (length es)"
  by (cases es) (simp_all add: scan_events_count open_session_def)

lemma sessionize_snoc:
  "sessionize gap (es @ [e]) =
     (if es = [] then [open_session e]
      else if continues gap (last (sessionize gap es)) e
      then butlast (sessionize gap es) @ [extend_session (last (sessionize gap es)) e]
      else sessionize gap es @ [open_session e])"
  by (cases es) (simp_all add: scan_events_snoc)

text \<open>
  Claim C6.  For the events \<open>(T1, t0)\<close>, \<open>(T1, t0 + 1 min)\<close>, \<open>(T2, t0 + 5 min)\<close> and a gap
  threshold of 2 minutes the sessionizer emits exactly the sessions
  \<open>(T1, t0, t0 + 1 min, 2)\<close> and \<open>(T2, t0 + 5 min, t0 + 5 min, 1)\<close>.  A single event gives
  one session that starts and ends at its timestamp with count 1.  The last event of
  any input is never dropped: the output is not empty, its last session ends at that
  event's timestamp, and it is the event's own session unless the event continues the
  session before it; the counts of the sessions add up to the number of events.
\<close>

theorem sessionizer_example_and_trailing_event:
  "sessionize 120
      [\<lparr>event_msisdn = m, event_tower_id = T1, event_timestamp = t0\<rparr>,
       \<lparr>event_msisdn = m, event_tower_id = T1, event_timestamp = t0 + 60\<rparr>,
       \<lparr>event_msisdn = m, event_tower_id = T2, event_timestamp = t0 + 300\<rparr>]
     = [\<lparr>session_msisdn = m, tower_id = T1, session_start = t0, session_end = t0 + 60,
          interaction_count = 2\<rparr>,
        \<lparr>session_msisdn = m, tower_id = T2, session_start = t0 + 300,
          session_end = t0 + 300, interaction_count = 1\<rparr>]
   \<and> sessionize gap [e] = [open_session e]
   \<and> session_start (open_session e) = event_timestamp e
   \<and> session_end (open_session e) = event_timestamp e
   \<and> interaction_count (open_session e) = 1
   \<and> sessionize gap (es @ [e]) \<noteq> []
   \<and> last (sessionize gap (es @ [e])) =
        (if es \<noteq> [] \<and> continues gap (last (sessionize gap es)) e
         then extend_session (last (sessionize gap es)) e else open_session e)
   \<and> session_end (last (sessionize gap (es @ [e]))) = event_timestamp e
   \<and> sum_list (map interaction_count (sessionize gap es)) = int (length es)"
  by (simp add: sessionize_snoc sessionize_count)
     (simp add: open_session_def extend_session_def continues_def)

text \<open>Witness of C6: the example with towers 1 and 2 from time 0.\<close>

theorem sessionizer_example_and_trailing_event_witness:
  "sessionize 120
      [\<lparr>event_msisdn = ''27820000001'', event_tower_id = 1, event_timestamp = 0\<rparr>,
       \<lparr>event_msisdn = ''27820000001'', event_tower_id = 1, event_timestamp = 60\<rparr>,
       \<lparr>event_msisdn = ''27820000001'', event_tower_id = 2, event_timestamp = 300\<rparr>]
     = [\<lparr>session_msisdn = ''27820000001'', tower_id = 1, session_start = 0, session_end = 60,
          interaction_count = 2\<rparr>,
        \<lparr>session_msisdn = ''27820000001'', tower_id = 2, session_start = 300,
          session_end = 300, interaction_count = 1\<rparr>]"
  using sessionizer_example_and_trailing_event [of "''27820000001''" 1 0 2 120
      "\<lparr>event_msisdn = ''27820000001'', event_tower_id = 2, event_timestamp = 300\<rparr>" "[]"]
  by simp

section \<open>Re-running a pass\<close>

lemma without_created_at_built [simp]:
  "without_created_at (add_cost_fields ts s) = add_cost_fields 0 s"
  by (simp add: without_created_at_def add_cost_fields_def)

lemma without_created_at_key [simp]:
  "row_key (without_created_at r) = row_key r" "device_id (without_created_at r) = device_id r"
  by (simp_all add: without_created_at_def row_key_def)

lemma without_created_at_conflict:
  "on_conflict_update (without_created_at a) (without_created_at b)
     = without_created_at (on_conflict_update a b)"
  by (simp add: without_created_at_def on_conflict_update_def)

lemma insert_rows_without_created_at:
  "insert_rows (map without_created_at tbl) touched (map without_created_at page) =
     (case insert_rows tbl touched page of
        Inl e \<Rightarrow> Inl e
      | Inr tbl' \<Rightarrow> Inr (map without_created_at tbl'))"
proof (induction page arbitrary: tbl touched)
  case Nil
  then show ?case by simp
next
  case (Cons r rs)
  have keys: "row_key ` without_created_at ` set tbl = row_key ` set tbl"
    by (simp add: image_image)
  have upd: "map (\<lambda>existing. if row_key existing = row_key r
                 then on_conflict_update existing (without_created_at r) else existing)
               (map without_created_at tbl)
      = map without_created_at (map (\<lambda>existing. if row_key existing = row_key r
                 then on_conflict_update existing r else existing) tbl)"
    by (simp add: without_created_at_conflict comp_def if_distrib [of without_created_at]
        cong: if_cong)
  show ?case
    using Cons.IH [of "tbl @ [r]" "row_key r # touched"]
      Cons.IH [of "map (\<lambda>existing. if row_key existing = row_key r
                 then on_conflict_update existing r else existing) tbl" "row_key r # touched"]
    by (simp add: keys upd del: map_map)
qed

lemma execute_pages_without_created_at:
  "execute_pages (map without_created_at tbl) (map (map without_created_at) pages) =
     (fst (execute_pages tbl pages), map without_created_at (snd (execute_pages tbl pages)))"
proof (induction pages arbitrary: tbl)
  case Nil
  then show ?case by simp
next
  case (Cons page rest)
  show ?case
    by (cases "insert_rows tbl [] page")
       (simp_all add: insert_rows_without_created_at Cons.IH)
qed

lemma paginate_map: "paginate (map f xs) = map (map f) (paginate xs)"
proof (induction xs rule: paginate.induct)
  case (1 xs)
  show ?case
  proof (cases "xs = []")
    case True
    then show ?thesis by (simp add: paginate.simps)
  next
    case False
    with 1 have "paginate (map f (drop 100 xs)) = map (map f) (paginate (drop 100 xs))" by simp
    with False show ?thesis
      by (subst paginate.simps, subst (2) paginate.simps) (simp add: take_map drop_map)
  qed
qed

lemma execute_values_any_time:
  "execute_values [] (map (add_cost_fields 0) src) =
     (fst (execute_values [] (map (add_cost_fields ts) src)),
      map without_created_at (snd (execute_values [] (map (add_cost_fields ts) src))))"
proof -
  have "map (add_cost_fields 0) src = map without_created_at (map (add_cost_fields ts) src)"
    by simp
  then show ?thesis
    using execute_pages_without_created_at [of "[]" "paginate (map (add_cost_fields ts) src)"]
    by (simp add: execute_values_def paginate_map del: map_map)
qed

lemma execute_values_two_times:
  "fst (execute_values [] (map (add_cost_fields t2) src))
      = fst (execute_values [] (map (add_cost_fields t1) src))
   \<and> map without_created_at (snd (execute_values [] (map (add_cost_fields t2) src)))
      = map without_created_at (snd (execute_values [] (map (add_cost_fields t1) src)))"
  using execute_values_any_time [of src t1] execute_values_any_time [of src t2] by simp


lemma process_returned_connected:
  assumes "process_crm_data_1 env db = (Returned, db1)"
  shows "connected (connect_prod env) \<and> connected (connect_analytics env)"
  using assms process_crm_data_1_not_connected [of env db] by auto

lemma process_crm_data_1_rerun:
  assumes first: "process_crm_data_1 env db = (Returned, db1)"
  shows "process_crm_data_1 env db1 = (Returned, db1)
     \<and> (\<exists>db2. process_crm_data_1 (env\<lparr>now := ts\<rparr>) db1 = (Returned, db2)
           \<and> db2 = db1\<lparr>crm_flattened_balance := crm_flattened_balance db2\<rparr>
           \<and> map_option (map without_created_at) (crm_flattened_balance db2)
               = map_option (map without_created_at) (crm_flattened_balance db1))"
proof -
  from process_returned_connected [OF first]
  have c: "connected (connect_prod env)" "connected (connect_analytics env)" by simp_all
  then have c': "connected (connect_prod (env\<lparr>now := ts\<rparr>))"
    "connected (connect_analytics (env\<lparr>now := ts\<rparr>))" by simp_all
  show ?thesis
  proof (cases "crm_query env = []")
    case True
    with first c have "db1 = db" "\<not> fails env ReadCrm"
      by (auto simp: process_crm_data_1_cases split: if_splits)
    with True c c' show ?thesis
      by (simp add: process_crm_data_1_cases)
  next
    case False
    obtain res tbl where ev:
      "execute_values [] (map (add_cost_fields (now env)) (crm_query env)) = (res, tbl)"
      by (cases "execute_values [] (map (add_cost_fields (now env)) (crm_query env))")
    obtain res' tbl' where ev':
      "execute_values [] (map (add_cost_fields ts) (crm_query env)) = (res', tbl')"
      by (cases "execute_values [] (map (add_cost_fields ts) (crm_query env))")
    from execute_values_two_times [of ts "crm_query env" "now env"] ev ev'
    have same: "res' = res" "map without_created_at tbl' = map without_created_at tbl"
      by simp_all
    from first c False ev have ok: "\<not> fails env ReadCrm" "\<not> fails env DropCreate"
      "\<not> fails env CommitTable" "\<not> fails env InsertRows" "res = None"
      "\<not> fails env CommitRows" "\<not> fails env SelectSample"
      and db1: "db1 = db\<lparr>crm_flattened_balance := Some tbl\<rparr>"
      by (auto simp: process_crm_data_1_cases split: if_splits option.splits)
    have again: "process_crm_data_1 env db1 = (Returned, db1)"
      using c False ev ok by (simp add: process_crm_data_1_cases db1)
    have later: "process_crm_data_1 (env\<lparr>now := ts\<rparr>) db1
        = (Returned, db1\<lparr>crm_flattened_balance := Some tbl'\<rparr>)"
      using c' False ev' ok same by (simp add: process_crm_data_1_cases)
    show ?thesis using again later same by (simp add: db1)
  qed
qed

lemma on_conflict_update_twice [simp]:
  "on_conflict_update (on_conflict_update x r) r = on_conflict_update x r"
  by (simp add: on_conflict_update_def)

lemma on_conflict_update_self [simp]: "on_conflict_update r r = r"
  by (simp add: on_conflict_update_def)

lemma insert_rows_other_keys:
  assumes "insert_rows tbl touched page = Inr tbl1" and "k \<notin> row_key ` set page"
  shows "filter (\<lambda>x. row_key x = k) tbl1 = filter (\<lambda>x. row_key x = k) tbl"
  using assms
proof (induction page arbitrary: tbl touched)
  case Nil
  then show ?case by simp
next
  case (Cons r rs)
  from Cons.prems(2) have ne: "row_key r \<noteq> k" and rest: "k \<notin> row_key ` set rs" by auto
  let ?upd = "map (\<lambda>existing. if row_key existing = row_key r
                 then on_conflict_update existing r else existing) tbl"
  have upd: "filter (\<lambda>x. row_key x = k) ?upd = filter (\<lambda>x. row_key x = k) tbl"
    using ne by (induction tbl) auto
  from Cons.prems(1) have "insert_rows ?upd (row_key r # touched) rs = Inr tbl1
      \<or> insert_rows (tbl @ [r]) (row_key r # touched) rs = Inr tbl1"
    by (auto split: if_splits)
  then show ?case
  proof
    assume "insert_rows ?upd (row_key r # touched) rs = Inr tbl1"
    from Cons.IH [OF this rest] upd show ?thesis by simp
  next
    assume "insert_rows (tbl @ [r]) (row_key r # touched) rs = Inr tbl1"
    from Cons.IH [OF this rest] ne show ?thesis by simp
  qed
qed

lemma insert_rows_keys:
  assumes "insert_rows tbl touched page = Inr tbl1"
  shows "row_key ` set tbl1 = row_key ` (set tbl \<union> set page)"
  using assms
proof (induction page arbitrary: tbl touched)
  case Nil
  then show ?case by simp
next
  case (Cons r rs)
  let ?upd = "map (\<lambda>existing. if row_key existing = row_key r
                 then on_conflict_update existing r else existing) tbl"
  have "map row_key ?upd = map row_key tbl" by (induction tbl) simp_all
  then have "set (map row_key ?upd) = set (map row_key tbl)" by simp
  then have keys: "row_key ` set ?upd = row_key ` set tbl" by (simp only: set_map)
  from Cons.prems have "(row_key r \<in> set (map row_key tbl)
        \<and> insert_rows ?upd (row_key r # touched) rs = Inr tbl1)
      \<or> insert_rows (tbl @ [r]) (row_key r # touched) rs = Inr tbl1"
    by (auto split: if_splits)
  then show ?case
  proof
    assume a: "row_key r \<in> set (map row_key tbl)
        \<and> insert_rows ?upd (row_key r # touched) rs = Inr tbl1"
    then have "row_key ` set tbl1 = row_key ` (set ?upd \<union> set rs)" using Cons.IH by blast
    with keys a show ?thesis by (auto simp: image_Un)
  next
    assume "insert_rows (tbl @ [r]) (row_key r # touched) rs = Inr tbl1"
    from Cons.IH [OF this] show ?thesis by (auto simp: image_Un)
  qed
qed

lemma insert_rows_Inr_keys:
  assumes "insert_rows tbl touched page = Inr tbl1"
  shows "distinct (map row_key page) \<and> row_key ` set page \<inter> set touched = {}
     \<and> (\<forall>r\<in>set page. device_id r \<noteq> None \<and> row_key r \<in> row_key ` set tbl1
           \<and> (\<forall>x\<in>set tbl1. row_key x = row_key r \<longrightarrow> on_conflict_update x r = x))"
  using assms
proof (induction page arbitrary: tbl touched)
  case Nil
  then show ?case by simp
next
  case (Cons r rs)
  from Cons.prems have dev: "device_id r \<noteq> None" and fresh: "row_key r \<notin> set touched"
    by (auto split: if_splits)
  let ?upd = "map (\<lambda>existing. if row_key existing = row_key r
                 then on_conflict_update existing r else existing) tbl"
  let ?tbl' = "if row_key r \<in> set (map row_key tbl) then ?upd else tbl @ [r]"
  from Cons.prems dev fresh
  have step: "insert_rows ?tbl' (row_key r # touched) rs = Inr tbl1"
    by (simp split: if_splits)
  from Cons.IH [OF step]
  have d: "distinct (map row_key rs)"
    and t: "row_key ` set rs \<inter> set (row_key r # touched) = {}"
    and q: "\<forall>r\<in>set rs. device_id r \<noteq> None \<and> row_key r \<in> row_key ` set tbl1
           \<and> (\<forall>x\<in>set tbl1. row_key x = row_key r \<longrightarrow> on_conflict_update x r = x)"
    by simp_all
  from t have notin: "row_key r \<notin> row_key ` set rs" by auto
  from insert_rows_other_keys [OF step notin]
  have same: "filter (\<lambda>x. row_key x = row_key r) tbl1 = filter (\<lambda>x. row_key x = row_key r) ?tbl'" .
  have here: "\<forall>x\<in>set (filter (\<lambda>x. row_key x = row_key r) ?tbl'). on_conflict_update x r = x"
    by (auto simp: image_iff)
  from insert_rows_keys [OF Cons.prems] have in1: "row_key r \<in> row_key ` set tbl1" by simp
  have fix1: "\<forall>x\<in>set tbl1. row_key x = row_key r \<longrightarrow> on_conflict_update x r = x"
  proof (intro ballI impI)
    fix x assume "x \<in> set tbl1" "row_key x = row_key r"
    then have "x \<in> set (filter (\<lambda>x. row_key x = row_key r) tbl1)" by simp
    then have "x \<in> set (filter (\<lambda>x. row_key x = row_key r) ?tbl')" by (simp only: same)
    with here show "on_conflict_update x r = x" by blast
  qed
  show ?case using d t q dev fresh notin in1 fix1 by auto
qed

lemma insert_rows_settled:
  assumes "distinct (map row_key page)" and "row_key ` set page \<inter> set touched = {}"
    and "\<forall>r\<in>set page. device_id r \<noteq> None \<and> row_key r \<in> row_key ` set tbl
           \<and> (\<forall>x\<in>set tbl. row_key x = row_key r \<longrightarrow> on_conflict_update x r = x)"
  shows "insert_rows tbl touched page = Inr tbl"
  using assms
proof (induction page arbitrary: touched)
  case Nil
  then show ?case by simp
next
  case (Cons r rs)
  from Cons.prems(3) have r: "device_id r \<noteq> None" "row_key r \<in> row_key ` set tbl"
    "\<forall>x\<in>set tbl. row_key x = row_key r \<longrightarrow> on_conflict_update x r = x" by simp_all
  from r(3) have same: "map (\<lambda>existing. if row_key existing = row_key r
                 then on_conflict_update existing r else existing) tbl = tbl"
    by (intro map_idI) simp
  from Cons.prems(2) have fresh: "row_key r \<notin> set touched" by auto
  have "insert_rows tbl (row_key r # touched) rs = Inr tbl"
    using Cons.prems by (intro Cons.IH) auto
  then show ?case using r fresh same by simp
qed

lemma insert_rows_again:
  assumes "insert_rows tbl [] page = Inr tbl1"
  shows "insert_rows tbl1 [] page = Inr tbl1"
  using insert_rows_Inr_keys [OF assms] by (intro insert_rows_settled) simp_all

text \<open>
  On a key conflict the statement adds no row; the row of that key takes every listed
  column from the proposed row and keeps its own cost columns and \<^verbatim>\<open>created_at\<close>.
  All rows a pass computes agree on those (zero, the clock reading of the pass), so
  within a pass the row of that key becomes the proposed row.
\<close>

lemma on_conflict_update_columns:
  "row_key e = row_key r \<Longrightarrow>
   on_conflict_update e r =
     r\<lparr>total_data_bytes := total_data_bytes e, data_cost_zar := data_cost_zar e,
       total_call_seconds := total_call_seconds e, voice_cost_zar := voice_cost_zar e,
       total_cost_zar := total_cost_zar e, running_balance_zar := running_balance_zar e,
       created_at := created_at e\<rparr>"
  by (cases e, cases r) (simp add: on_conflict_update_def row_key_def)

lemma insert_rows_conflict_row:
  assumes "insert_rows tbl [] [r] = Inr tbl2" and "row_key r \<in> row_key ` set tbl"
  shows "length tbl2 = length tbl
     \<and> (\<forall>i<length tbl. tbl2 ! i =
          (if row_key (tbl ! i) = row_key r
           then r\<lparr>total_data_bytes := total_data_bytes (tbl ! i),
                  data_cost_zar := data_cost_zar (tbl ! i),
                  total_call_seconds := total_call_seconds (tbl ! i),
                  voice_cost_zar := voice_cost_zar (tbl ! i),
                  total_cost_zar := total_cost_zar (tbl ! i),
                  running_balance_zar := running_balance_zar (tbl ! i),
                  created_at := created_at (tbl ! i)\<rparr>
           else tbl ! i))"
proof -
  from assms have "tbl2 = map (\<lambda>e. if row_key e = row_key r then on_conflict_update e r else e) tbl"
    by (auto split: if_splits)
  then show ?thesis by (simp add: on_conflict_update_columns)
qed


lemma insert_rows_conflict_built:
  assumes "insert_rows tbl [] [add_cost_fields ts s] = Inr tbl2"
    and "set tbl \<subseteq> range (add_cost_fields ts)"
    and "row_key (add_cost_fields ts s) \<in> row_key ` set tbl"
  shows "length tbl2 = length tbl
     \<and> (\<forall>i<length tbl. tbl2 ! i =
          (if row_key (tbl ! i) = row_key (add_cost_fields ts s)
           then add_cost_fields ts s else tbl ! i))"
proof -
  from assms(1,3)
  have tbl2: "tbl2 = map (\<lambda>e. if row_key e = row_key (add_cost_fields ts s)
                 then on_conflict_update e (add_cost_fields ts s) else e) tbl"
    by (auto split: if_splits)
  have "tbl2 ! i = (if row_key (tbl ! i) = row_key (add_cost_fields ts s)
           then add_cost_fields ts s else tbl ! i)" if "i < length tbl" for i
  proof -
    from that assms(2) obtain a where a: "tbl ! i = add_cost_fields ts a"
      by (metis imageE nth_mem subsetD)
    show ?thesis using that on_conflict_update_built [of ts a s] by (simp add: tbl2 a)
  qed
  then show ?thesis by (simp add: tbl2)
qed

text \<open>
  After the upsert of a pass, page by page, the table holds one row per key, the last
  computed record with that key.
\<close>

lemma last_wins_conflict:
  assumes inv: "last_wins seen tbl" and key: "row_key r \<in> set (map row_key tbl)"
    and whole: "\<And>e. e \<in> set tbl \<Longrightarrow> row_key e = row_key r \<Longrightarrow> on_conflict_update e r = r"
  shows "last_wins (seen @ [r])
     (map (\<lambda>e. if row_key e = row_key r then on_conflict_update e r else e) tbl)"
proof -
  let ?t = "map (\<lambda>e. if row_key e = row_key r then on_conflict_update e r else e) tbl"
  have t: "?t = map (\<lambda>e. if row_key e = row_key r then r else e) tbl"
    by (rule map_cong) (simp_all add: whole)
  have keys: "map row_key ?t = map row_key tbl" by (induction tbl) simp_all
  from inv have d: "distinct (map row_key tbl)"
    and s: "set (map row_key tbl) = set (map row_key seen)"
    and l: "\<And>x. x \<in> set tbl \<Longrightarrow> x = last (filter (\<lambda>y. row_key y = row_key x) seen)"
    by (simp_all add: last_wins_def list_all_iff)
  have rows: "x = last (filter (\<lambda>y. row_key y = row_key x) (seen @ [r]))" if "x \<in> set ?t" for x
  proof -
    from that t have "x = r \<or> (x \<in> set tbl \<and> row_key x \<noteq> row_key r)" by auto
    then show ?thesis
    proof
      assume "x = r" then show ?thesis by simp
    next
      assume a: "x \<in> set tbl \<and> row_key x \<noteq> row_key r"
      then have "filter (\<lambda>y. row_key y = row_key x) (seen @ [r])
          = filter (\<lambda>y. row_key y = row_key x) seen" by auto
      with l a show ?thesis by simp
    qed
  qed
  have "set (map row_key ?t) = set (map row_key (seen @ [r]))"
    using key s by (simp only: keys) auto
  with d rows show ?thesis
    unfolding last_wins_def list_all_iff by (simp only: keys) simp
qed

lemma last_wins_insert:
  assumes inv: "last_wins seen tbl" and key: "row_key r \<notin> set (map row_key tbl)"
  shows "last_wins (seen @ [r]) (tbl @ [r])"
proof -
  from inv have d: "distinct (map row_key tbl)"
    and s: "set (map row_key tbl) = set (map row_key seen)"
    and l: "\<And>x. x \<in> set tbl \<Longrightarrow> x = last (filter (\<lambda>y. row_key y = row_key x) seen)"
    by (simp_all add: last_wins_def list_all_iff)
  have rows: "x = last (filter (\<lambda>y. row_key y = row_key x) (seen @ [r]))"
    if "x \<in> set (tbl @ [r])" for x
  proof (cases "x = r")
    case True
    then show ?thesis by simp
  next
    case False
    with that have x: "x \<in> set tbl" by simp
    with key have "row_key x \<noteq> row_key r" by (auto simp: image_iff)
    then have "filter (\<lambda>y. row_key y = row_key x) (seen @ [r])
          = filter (\<lambda>y. row_key y = row_key x) seen" by auto
    with l x show ?thesis by simp
  qed
  from d key s rows show ?thesis
    unfolding last_wins_def list_all_iff by auto
qed

lemma insert_rows_last_wins:
  assumes "insert_rows tbl touched page = Inr tbl'"
    and "last_wins seen tbl"
    and "set tbl \<subseteq> range (add_cost_fields ts)" and "set page \<subseteq> range (add_cost_fields ts)"
  shows "last_wins (seen @ page) tbl'"
  using assms
proof (induction page arbitrary: tbl touched seen)
  case Nil
  then show ?case by simp
next
  case (Cons r rs)
  from Cons.prems(1) have dev: "device_id r \<noteq> None" and fresh: "row_key r \<notin> set touched"
    by (auto split: if_splits)
  let ?upd = "map (\<lambda>e. if row_key e = row_key r then on_conflict_update e r else e) tbl"
  let ?tbl1 = "if row_key r \<in> set (map row_key tbl) then ?upd else tbl @ [r]"
  from Cons.prems(1) dev fresh
  have step: "insert_rows ?tbl1 (row_key r # touched) rs = Inr tbl'"
    by (simp split: if_splits)
  have one: "insert_rows tbl touched [r] = Inr ?tbl1"
    using dev fresh by simp
  from insert_rows_built [OF one, of ts UNIV] Cons.prems(3,4)
  have built: "set ?tbl1 \<subseteq> range (add_cost_fields ts)" by simp
  have whole: "on_conflict_update e r = r" if "e \<in> set tbl" "row_key e = row_key r" for e
  proof -
    from that(1) Cons.prems(3) obtain a where a: "e = add_cost_fields ts a" by auto
    from Cons.prems(4) obtain b where b: "r = add_cost_fields ts b" by auto
    from that(2) show ?thesis unfolding a b by (rule on_conflict_update_built)
  qed
  have inv: "last_wins (seen @ [r]) ?tbl1"
  proof (cases "row_key r \<in> set (map row_key tbl)")
    case True
    from last_wins_conflict [OF Cons.prems(2) True whole] True show ?thesis by simp
  next
    case False
    from last_wins_insert [OF Cons.prems(2) False] False show ?thesis by simp
  qed
  from Cons.prems(4) have rest: "set rs \<subseteq> range (add_cost_fields ts)" by simp
  from Cons.IH [OF step inv built rest] show ?case by simp
qed

lemma execute_pages_last_wins:
  assumes "execute_pages tbl pages = (None, tbl')"
    and "last_wins seen tbl"
    and "set tbl \<subseteq> range (add_cost_fields ts)"
    and "set (concat pages) \<subseteq> range (add_cost_fields ts)"
  shows "last_wins (seen @ concat pages) tbl'"
  using assms
proof (induction pages arbitrary: tbl seen)
  case Nil
  then show ?case by simp
next
  case (Cons page rest)
  show ?case
  proof (cases "insert_rows tbl [] page")
    case (Inl e)
    with Cons.prems(1) show ?thesis by simp
  next
    case (Inr tbl1)
    with Cons.prems(1) have step: "execute_pages tbl1 rest = (None, tbl')" by simp
    from Cons.prems(4) have page: "set page \<subseteq> range (add_cost_fields ts)"
      and rest: "set (concat rest) \<subseteq> range (add_cost_fields ts)" by simp_all
    from insert_rows_built [OF Inr Cons.prems(3) page]
    have built: "set tbl1 \<subseteq> range (add_cost_fields ts)" by simp
    from insert_rows_last_wins [OF Inr Cons.prems(2,3) page]
    have inv: "last_wins (seen @ page) tbl1" .
    from Cons.IH [OF step inv built rest] show ?thesis by simp
  qed
qed

lemma execute_values_last_wins:
  assumes "execute_values [] (map (add_cost_fields ts) src) = (None, tbl)"
  shows "last_wins (map (add_cost_fields ts) src) tbl"
proof -
  have start: "last_wins [] []" by (simp add: last_wins_def)
  from execute_pages_last_wins [of "[]" "paginate (map (add_cost_fields ts) src)" tbl "[]" ts]
    assms start
  show ?thesis by (auto simp: execute_values_def concat_paginate)
qed

lemma process_crm_data_1_last_wins:
  assumes "process_crm_data_1 env db = (Returned, db1)" and "crm_query env \<noteq> []"
  shows "\<exists>rows. crm_flattened_balance db1 = Some rows
     \<and> last_wins (map (add_cost_fields (now env)) (crm_query env)) rows"
proof -
  from process_returned_connected [OF assms(1)]
  have c: "connected (connect_prod env)" "connected (connect_analytics env)" by simp_all
  obtain res tbl where ev:
    "execute_values [] (map (add_cost_fields (now env)) (crm_query env)) = (res, tbl)"
    by (cases "execute_values [] (map (add_cost_fields (now env)) (crm_query env))")
  from assms c ev have "res = None" and db1: "db1 = db\<lparr>crm_flattened_balance := Some tbl\<rparr>"
    by (auto simp: process_crm_data_1_cases split: if_splits option.splits)
  with ev execute_values_last_wins [of "now env" "crm_query env" tbl] show ?thesis by simp
qed

text \<open>
  A pass over 101 records: John, ninety-nine other accounts, and John again after his
  move.  The second page meets John's key in the table; the pass returns with a
  hundred rows, John's holding the new address.
\<close>

lemma example_run_conflict:
  "process_crm_data_1 (env_of (john # other_accounts @ [john_moved]) 9) empty_db
     = (Returned, empty_db\<lparr>crm_flattened_balance :=
          Some (map (add_cost_fields 9) (john_moved # other_accounts))\<rparr>)"
  by code_simp

text \<open>
  Claim C2, as stated, fails.  \<^verbatim>\<open>process_crm_data_1\<close> run at time 9 and run again at time
  10 over the same query result: both passes return, and the rows of the second differ
  from the rows of the first (in \<^verbatim>\<open>created_at\<close>).
\<close>

theorem rerun_changes_created_at:
  "crm_query (env_of [john] 10) = crm_query (env_of [john] 9)
   \<and> fst (process_crm_data_1 (env_of [john] 9) empty_db) = Returned
   \<and> fst (process_crm_data_1 (env_of [john] 10)
             (snd (process_crm_data_1 (env_of [john] 9) empty_db))) = Returned
   \<and> crm_flattened_balance (snd (process_crm_data_1 (env_of [john] 10)
             (snd (process_crm_data_1 (env_of [john] 9) empty_db))))
       \<noteq> crm_flattened_balance (snd (process_crm_data_1 (env_of [john] 9) empty_db))"
proof -
  have stamp: "add_cost_fields 10 john \<noteq> add_cost_fields 9 john"
    by (simp add: add_cost_fields_def)
  have query: "crm_query (env_of [john] 10) = crm_query (env_of [john] 9)"
    by (simp add: env_of_def)
  from stamp query show ?thesis by (simp add: example_run_john)
qed

text \<open>
  Claim C2, amended.  Re-running a pass over the same input gives the same rows in
  every column except \<^verbatim>\<open>created_at\<close>.  A balance-update pass that returned, run again on
  its own result, returns and changes nothing.  \<^verbatim>\<open>process_crm_data_1\<close> that returned,
  run again, returns; its rows are those of the first run with the \<^verbatim>\<open>created_at\<close> of
  the second, and the very same rows when the clock reads the same.  The upsert
  statement applied again to the table it produced leaves that table as it is.  On a
  key conflict within a pass it adds no row and the row of that key becomes the newly
  computed row; after a pass that returns, the table holds one row per key of the
  query result, the row computed from the last source row with that key.
\<close>

theorem rerun_same_rows_but_created_at:
  "(update_crm_balances_from_cdr env db = (Returned, db') \<longrightarrow>
      update_crm_balances_from_cdr env db' = (Returned, db'))
   \<and> (process_crm_data_1 env d = (Returned, d1) \<longrightarrow>
        process_crm_data_1 env d1 = (Returned, d1)
        \<and> (\<exists>d2. process_crm_data_1 (env\<lparr>now := ts\<rparr>) d1 = (Returned, d2)
              \<and> d2 = d1\<lparr>crm_flattened_balance := crm_flattened_balance d2\<rparr>
              \<and> map_option (map without_created_at) (crm_flattened_balance d2)
                  = map_option (map without_created_at) (crm_flattened_balance d1)))
   \<and> (insert_rows tbl [] page = Inr tbl1 \<longrightarrow> insert_rows tbl1 [] page = Inr tbl1)
   \<and> (insert_rows tbl2 [] [add_cost_fields t s] = Inr tbl3
        \<and> set tbl2 \<subseteq> range (add_cost_fields t)
        \<and> row_key (add_cost_fields t s) \<in> row_key ` set tbl2 \<longrightarrow>
        length tbl3 = length tbl2
        \<and> (\<forall>i<length tbl2. tbl3 ! i =
              (if row_key (tbl2 ! i) = row_key (add_cost_fields t s)
               then add_cost_fields t s else tbl2 ! i)))
   \<and> (process_crm_data_1 env d = (Returned, d1) \<and> crm_query env \<noteq> [] \<longrightarrow>
        (\<exists>rows. crm_flattened_balance d1 = Some rows
           \<and> last_wins (map (add_cost_fields (now env)) (crm_query env)) rows))"
proof -
  have 1: "update_crm_balances_from_cdr env db = (Returned, db') \<longrightarrow>
      update_crm_balances_from_cdr env db' = (Returned, db')"
    using balance_update_idempotent [of env db db'] by blast
  have 2: "process_crm_data_1 env d = (Returned, d1) \<longrightarrow>
        process_crm_data_1 env d1 = (Returned, d1)
        \<and> (\<exists>d2. process_crm_data_1 (env\<lparr>now := ts\<rparr>) d1 = (Returned, d2)
              \<and> d2 = d1\<lparr>crm_flattened_balance := crm_flattened_balance d2\<rparr>
              \<and> map_option (map without_created_at) (crm_flattened_balance d2)
                  = map_option (map without_created_at) (crm_flattened_balance d1))"
    using process_crm_data_1_rerun [of env d d1 ts] by blast
  have 3: "insert_rows tbl [] page = Inr tbl1 \<longrightarrow> insert_rows tbl1 [] page = Inr tbl1"
    using insert_rows_again [of tbl page tbl1] by blast
  have 4: "insert_rows tbl2 [] [add_cost_fields t s] = Inr tbl3
        \<and> set tbl2 \<subseteq> range (add_cost_fields t)
        \<and> row_key (add_cost_fields t s) \<in> row_key ` set tbl2 \<longrightarrow>
        length tbl3 = length tbl2
        \<and> (\<forall>i<length tbl2. tbl3 ! i =
              (if row_key (tbl2 ! i) = row_key (add_cost_fields t s)
               then add_cost_fields t s else tbl2 ! i))"
    using insert_rows_conflict_built [of tbl2 t s tbl3] by blast
  have 5: "process_crm_data_1 env d = (Returned, d1) \<and> crm_query env \<noteq> [] \<longrightarrow>
        (\<exists>rows. crm_flattened_balance d1 = Some rows
           \<and> last_wins (map (add_cost_fields (now env)) (crm_query env)) rows)"
    using process_crm_data_1_last_wins [of env d d1] by blast
  from 1 2 3 4 5 show ?thesis by (intro conjI)
qed

text \<open>
  Witness of C2 amended: the balance pass over John's usage run twice;
  \<^verbatim>\<open>process_crm_data_1\<close> over John's account run at time 9 and again at time 10; the
  upsert of John's new address into a table holding his row; and the pass over 101
  records in which John's key comes twice.
\<close>

theorem rerun_same_rows_but_created_at_witness:
  "update_crm_balances_from_cdr (env_of [john] 9) (usage_db [gib_of_data] [two_minutes])
     = (Returned, (usage_db [gib_of_data] [two_minutes])\<lparr>crm_flattened_balance := Some [billed_john]\<rparr>)
   \<and> update_crm_balances_from_cdr (env_of [john] 9)
       ((usage_db [gib_of_data] [two_minutes])\<lparr>crm_flattened_balance := Some [billed_john]\<rparr>)
     = (Returned, (usage_db [gib_of_data] [two_minutes])\<lparr>crm_flattened_balance := Some [billed_john]\<rparr>)
   \<and> process_crm_data_1 (env_of [john] 9) empty_db
     = (Returned, empty_db\<lparr>crm_flattened_balance := Some [add_cost_fields 9 john]\<rparr>)
   \<and> process_crm_data_1 (env_of [john] 10)
       (empty_db\<lparr>crm_flattened_balance := Some [add_cost_fields 9 john]\<rparr>)
     = (Returned, empty_db\<lparr>crm_flattened_balance := Some [add_cost_fields 10 john]\<rparr>)
   \<and> map without_created_at [add_cost_fields 10 john]
     = map without_created_at [add_cost_fields 9 john]
   \<and> insert_rows [] [] [add_cost_fields 9 john] = Inr [add_cost_fields 9 john]
   \<and> insert_rows [add_cost_fields 9 john] [] [add_cost_fields 9 john]
     = Inr [add_cost_fields 9 john]
   \<and> insert_rows [add_cost_fields 9 john] [] [add_cost_fields 9 john_moved]
     = Inr [add_cost_fields 9 john_moved]
   \<and> row_key (add_cost_fields 9 john_moved) = row_key (add_cost_fields 9 john)
   \<and> add_cost_fields 9 john_moved \<noteq> add_cost_fields 9 john
   \<and> process_crm_data_1 (env_of (john # other_accounts @ [john_moved]) 9) empty_db
     = (Returned, empty_db\<lparr>crm_flattened_balance :=
          Some (map (add_cost_fields 9) (john_moved # other_accounts))\<rparr>)
   \<and> last_wins (map (add_cost_fields 9) (john # other_accounts @ [john_moved]))
        (map (add_cost_fields 9) (john_moved # other_accounts))"
proof -
  have pass: "update_crm_balances_from_cdr (env_of [john] 9) (usage_db [gib_of_data] [two_minutes])
     = (Returned, (usage_db [gib_of_data] [two_minutes])\<lparr>crm_flattened_balance := Some [billed_john]\<rparr>)"
    by code_simp
  have nine: "process_crm_data_1 (env_of [john] 9) empty_db
      = (Returned, empty_db\<lparr>crm_flattened_balance := Some [add_cost_fields 9 john]\<rparr>)"
    by (rule example_run_john)
  have ten: "(env_of [john] 9)\<lparr>now := 10\<rparr> = env_of [john] 10"
    by (simp add: env_of_def)
  have ins: "insert_rows [] [] [add_cost_fields 9 john] = Inr [add_cost_fields 9 john]"
    by (simp add: add_cost_fields_def john_def)
  have key: "row_key (add_cost_fields 9 john_moved) = row_key (add_cost_fields 9 john)"
    by (simp add: row_key_def add_cost_fields_def john_moved_def)
  have moved: "add_cost_fields 9 john_moved \<noteq> add_cost_fields 9 john"
    by (simp add: add_cost_fields_def john_moved_def john_def)
  have ups: "insert_rows [add_cost_fields 9 john] [] [add_cost_fields 9 john_moved]
      = Inr [on_conflict_update (add_cost_fields 9 john) (add_cost_fields 9 john_moved)]"
    using key by (simp add: add_cost_fields_def john_moved_def john_def)
  have query: "crm_query (env_of [john] 9) \<noteq> []"
    "crm_query (env_of (john # other_accounts @ [john_moved]) 9) \<noteq> []"
    "now (env_of (john # other_accounts @ [john_moved]) 9) = 9"
    "crm_query (env_of (john # other_accounts @ [john_moved]) 9)
       = john # other_accounts @ [john_moved]"
    by (simp_all add: env_of_def)
  note small = rerun_same_rows_but_created_at
    [of "env_of [john] 9" "usage_db [gib_of_data] [two_minutes]"
      "(usage_db [gib_of_data] [two_minutes])\<lparr>crm_flattened_balance := Some [billed_john]\<rparr>"
      empty_db
      "empty_db\<lparr>crm_flattened_balance := Some [add_cost_fields 9 john]\<rparr>" 10
      "[]" "[add_cost_fields 9 john]" "[add_cost_fields 9 john]"
      "[add_cost_fields 9 john]" 9 john_moved
      "[on_conflict_update (add_cost_fields 9 john) (add_cost_fields 9 john_moved)]"]
  from small ups key
  have replaced: "on_conflict_update (add_cost_fields 9 john) (add_cost_fields 9 john_moved)
      = add_cost_fields 9 john_moved"
    by simp
  note large = rerun_same_rows_but_created_at
    [of "env_of (john # other_accounts @ [john_moved]) 9" _ _ empty_db
      "empty_db\<lparr>crm_flattened_balance :=
          Some (map (add_cost_fields 9) (john_moved # other_accounts))\<rparr>"]
  from large example_run_conflict query
  have wins: "last_wins (map (add_cost_fields 9) (john # other_accounts @ [john_moved]))
        (map (add_cost_fields 9) (john_moved # other_accounts))"
    by simp
  from small pass nine ins
  have first: "update_crm_balances_from_cdr (env_of [john] 9)
       ((usage_db [gib_of_data] [two_minutes])\<lparr>crm_flattened_balance := Some [billed_john]\<rparr>)
     = (Returned, (usage_db [gib_of_data] [two_minutes])\<lparr>crm_flattened_balance := Some [billed_john]\<rparr>)"
    "insert_rows [add_cost_fields 9 john] [] [add_cost_fields 9 john] = Inr [add_cost_fields 9 john]"
    by simp_all
  have later: "process_crm_data_1 (env_of [john] 10)
       (empty_db\<lparr>crm_flattened_balance := Some [add_cost_fields 9 john]\<rparr>)
     = (Returned, empty_db\<lparr>crm_flattened_balance := Some [add_cost_fields 10 john]\<rparr>)"
    by (simp add: example_run_john)
  have same: "map without_created_at [add_cost_fields 10 john]
     = map without_created_at [add_cost_fields 9 john]"
    by simp
  from ups replaced
  have upsert: "insert_rows [add_cost_fields 9 john] [] [add_cost_fields 9 john_moved]
     = Inr [add_cost_fields 9 john_moved]"
    by (simp only:)
  from pass first(1) nine later same ins first(2) upsert key moved example_run_conflict wins
  show ?thesis by (intro conjI)
qed

end
